theory Spec2Isabelle
  imports Complex_Main
begin

section \<open>Live conversation: data model\<close>

text \<open>
  The component \<^verbatim>\<open>LiveConversation\<close> keeps four React state variables and a handful of
  refs. The model is one record holding both, followed by the part of the browser the
  handlers act upon (which nodes were started and stopped, which devices were released).
  Clock values are real numbers; every handler receives the value that
  \<^verbatim>\<open>audioCtx.currentTime\<close> has when the handler reads it.
\<close>

record audio_buffer =
  frames :: nat
  sample_rate :: nat

text \<open>\<^verbatim>\<open>AudioBuffer.duration\<close>: the number of sample frames over the sample rate.\<close>

definition duration :: "audio_buffer \<Rightarrow> real" where
  "duration b = real (frames b) / real (sample_rate b)"

text \<open>
  An \<^verbatim>\<open>AudioBufferSourceNode\<close> on which \<^verbatim>\<open>start\<close> was called. \<open>node_id\<close> stands for the
  identity of the JavaScript object: two nodes with the same buffer and start time are
  still different members of a \<^verbatim>\<open>Set\<close>.
\<close>

record source_node =
  node_id :: nat
  start_at :: real
  node_buffer :: audio_buffer

definition end_time :: "source_node \<Rightarrow> real" where
  "end_time n = start_at n + duration (node_buffer n)"

text \<open>
  The two parts of a \<^verbatim>\<open>LiveServerMessage\<close> that \<^verbatim>\<open>onmessage\<close> reads:
  \<^verbatim>\<open>serverContent?.modelTurn?.parts?.[0]?.inlineData?.data\<close> and
  \<^verbatim>\<open>serverContent?.interrupted\<close>.
\<close>

record message =
  audio_data :: "string option"
  interrupted :: bool

text \<open>
  \<^verbatim>\<open>decodeAudioData(decode(base64Audio), audioCtx, 24000, 1)\<close> lives in
  \<^verbatim>\<open>utils/audioUtils\<close>; it is a parameter of the model: a payload either decodes to a
  buffer or the call raises.
\<close>

type_synonym decoder = "string \<Rightarrow> string + audio_buffer"

record live =
  isConnected :: bool
  isSpeaking :: bool
  error :: "string option"
  logs :: "string list"
  audioContextRef :: "nat option"
  mediaStreamRef :: "nat option"
  scriptProcessorRef :: "nat option"
  sessionRef :: "nat option"
  nextStartTimeRef :: real
  sourcesRef :: "source_node list"
  analyserRef :: "nat option"
  animationFrameRef :: nat
  console :: "string list"
  surfaced :: "string list"
  scheduled :: "source_node list"
  stopped :: "source_node set"
  cancelledFrames :: "nat set"
  stoppedStreams :: "nat set"
  disconnected :: "nat set"
  closedContexts :: "nat set"
  createdContexts :: "nat set"
  connectCalls :: nat
  channelOpen :: bool
  nextNodeId :: nat

text \<open>
  The fields up to \<open>animationFrameRef\<close> are the component's own state and refs
  (\<open>sourcesRef\<close> is the \<^verbatim>\<open>Set\<close> of outstanding nodes, in insertion order). The
  rest records what the handlers did to the browser: lines written with
  \<^verbatim>\<open>console.error\<close>, every non-null \<^verbatim>\<open>setError\<close>, the nodes passed to \<^verbatim>\<open>start\<close> and to
  \<^verbatim>\<open>stop\<close>, cancelled animation frames, media streams whose tracks were stopped,
  disconnected script processors, closed audio contexts, the audio contexts created
  (output and input), the number of \<^verbatim>\<open>ai.live.connect\<close> calls, whether the remote channel
  is open (it opens before \<^verbatim>\<open>onopen\<close> and is closed only by the remote side: no handler
  calls \<^verbatim>\<open>close()\<close> on the session), and the next fresh node identity.
\<close>

definition initial_state :: live where
  "initial_state =
     \<lparr>isConnected = False, isSpeaking = False, error = None, logs = [],
      audioContextRef = None, mediaStreamRef = None, scriptProcessorRef = None,
      sessionRef = None, nextStartTimeRef = 0, sourcesRef = [], analyserRef = None,
      animationFrameRef = 0, console = [], surfaced = [], scheduled = [], stopped = {},
      cancelledFrames = {}, stoppedStreams = {}, disconnected = {}, closedContexts = {},
      createdContexts = {}, connectCalls = 0, channelOpen = False, nextNodeId = 0\<rparr>"

section \<open>Logging and error display\<close>

text \<open>\<^verbatim>\<open>xs.slice(-k)\<close>: the elements from index \<open>max (length - k) 0\<close> on.\<close>

definition slice_neg :: "nat \<Rightarrow> 'a list \<Rightarrow> 'a list" where
  "slice_neg k xs = drop (length xs - k) xs"

text \<open>The updater \<^verbatim>\<open>prev => [...prev.slice(-4), msg]\<close> that \<^verbatim>\<open>addLog\<close> hands to \<^verbatim>\<open>setLogs\<close>.\<close>

definition addLog_update :: "string \<Rightarrow> string list \<Rightarrow> string list" where
  "addLog_update msg prev = slice_neg 4 prev @ [msg]"

definition addLog :: "string \<Rightarrow> live \<Rightarrow> live" where
  "addLog msg s = s\<lparr>logs := addLog_update msg (logs s)\<rparr>"

definition setError :: "string option \<Rightarrow> live \<Rightarrow> live" where
  "setError e s =
     s\<lparr>error := e,
       surfaced := (case e of None \<Rightarrow> surfaced s | Some m \<Rightarrow> surfaced s @ [m])\<rparr>"

definition console_error :: "string \<Rightarrow> live \<Rightarrow> live" where
  "console_error e s = s\<lparr>console := console s @ [e]\<rparr>"

section \<open>Handler outcomes\<close>

text \<open>
  A handler either runs to its end or raises; what it wrote to the refs before raising
  stays written, so both outcomes carry the state.
\<close>

datatype outcome = Done live | Threw string live

fun state_of :: "outcome \<Rightarrow> live" where
  "state_of (Done s) = s"
| "state_of (Threw e s) = s"

fun threw :: "outcome \<Rightarrow> bool" where
  "threw (Done s) = False"
| "threw (Threw e s) = True"

section \<open>Stopping nodes\<close>

text \<open>
  \<^verbatim>\<open>AudioBufferSourceNode.stop()\<close> raises \<^verbatim>\<open>InvalidStateError\<close> on a node that was never
  started and otherwise silences the node at once.
\<close>

definition node_stop :: "source_node \<Rightarrow> live \<Rightarrow> outcome" where
  "node_stop n s =
     (if n \<in> set (scheduled s) then Done (s\<lparr>stopped := insert n (stopped s)\<rparr>)
      else Threw ''InvalidStateError'' s)"

text \<open>\<^verbatim>\<open>forEach(source => { try { source.stop(); } catch (e) {} })\<close> of \<^verbatim>\<open>stopConversation\<close>.\<close>

fun stop_each_caught :: "source_node list \<Rightarrow> live \<Rightarrow> live" where
  "stop_each_caught [] s = s"
| "stop_each_caught (n # ns) s = stop_each_caught ns (state_of (node_stop n s))"

text \<open>\<^verbatim>\<open>forEach(s => s.stop())\<close> of the interruption branch: the first raise ends the loop.\<close>

fun stop_each :: "source_node list \<Rightarrow> live \<Rightarrow> outcome" where
  "stop_each [] s = Done s"
| "stop_each (n # ns) s =
     (case node_stop n s of Done s' \<Rightarrow> stop_each ns s' | Threw e s' \<Rightarrow> Threw e s')"

section \<open>stopConversation\<close>

text \<open>
  \<^verbatim>\<open>stopConversation\<close> is an \<^verbatim>\<open>async\<close> function with one \<^verbatim>\<open>await\<close>, on
  \<^verbatim>\<open>audioContextRef.current.close()\<close>. \<open>stop_release\<close> is the code before the
  \<^verbatim>\<open>if (audioContextRef.current)\<close>, \<open>stop_begin\<close> runs up to the \<^verbatim>\<open>await\<close> (or to the end
  when the ref is null), \<open>stop_resume\<close> runs from the \<^verbatim>\<open>await\<close> to the end.
\<close>

definition stop_release :: "live \<Rightarrow> live" where
  "stop_release s =
     (let s1 = (if animationFrameRef s \<noteq> 0
                then s\<lparr>cancelledFrames := insert (animationFrameRef s) (cancelledFrames s),
                       animationFrameRef := 0\<rparr>
                else s);
          s2 = s1\<lparr>analyserRef := None\<rparr>;
          s3 = (case sessionRef s2 of None \<Rightarrow> s2 | Some c \<Rightarrow> s2\<lparr>sessionRef := None\<rparr>);
          s4 = (case mediaStreamRef s3 of None \<Rightarrow> s3
                | Some m \<Rightarrow> s3\<lparr>stoppedStreams := insert m (stoppedStreams s3),
                               mediaStreamRef := None\<rparr>);
          s5 = (case scriptProcessorRef s4 of None \<Rightarrow> s4
                | Some p \<Rightarrow> s4\<lparr>disconnected := insert p (disconnected s4),
                               scriptProcessorRef := None\<rparr>);
          s6 = stop_each_caught (sourcesRef s5) s5
      in s6\<lparr>sourcesRef := []\<rparr>)"

datatype close_result = Resolved | Rejected string

text \<open>\<^verbatim>\<open>AudioContext.close()\<close>: rejected on a context that is already closed.\<close>

definition ctx_close :: "nat \<Rightarrow> live \<Rightarrow> close_result \<times> live" where
  "ctx_close c s =
     (if c \<in> closedContexts s then (Rejected ''InvalidStateError'', s)
      else (Resolved, s\<lparr>closedContexts := insert c (closedContexts s)\<rparr>))"

definition stop_tail :: "live \<Rightarrow> live" where
  "stop_tail s = addLog ''Conversation ended'' (s\<lparr>isConnected := False, isSpeaking := False\<rparr>)"

datatype stop_phase = Finished | Awaiting close_result

definition stop_begin :: "live \<Rightarrow> stop_phase \<times> live" where
  "stop_begin s =
     (let s' = stop_release s
      in case audioContextRef s' of
           None \<Rightarrow> (Finished, stop_tail s')
         | Some c \<Rightarrow> (case ctx_close c s' of (r, s'') \<Rightarrow> (Awaiting r, s'')))"

definition stop_resume :: "close_result \<Rightarrow> live \<Rightarrow> live" where
  "stop_resume r s =
     stop_tail
       ((case r of Resolved \<Rightarrow> s | Rejected e \<Rightarrow> console_error e s)\<lparr>audioContextRef := None\<rparr>)"

text \<open>One call, run to its end with nothing else in between.\<close>

definition stopConversation :: "live \<Rightarrow> live" where
  "stopConversation s =
     (case stop_begin s of
        (Finished, s') \<Rightarrow> s'
      | (Awaiting r, s') \<Rightarrow> stop_resume r s')"


text \<open>
  Every ref that \<^verbatim>\<open>stopConversation\<close> clears is clear. For the remote channel this says
  that \<^verbatim>\<open>sessionRef\<close> is null, not that the channel is closed (\<open>channelOpen\<close> tells that).
\<close>

definition released :: "live \<Rightarrow> bool" where
  "released s \<longleftrightarrow>
     animationFrameRef s = 0 \<and> analyserRef s = None \<and> sessionRef s = None
     \<and> mediaStreamRef s = None \<and> scriptProcessorRef s = None \<and> sourcesRef s = []
     \<and> audioContextRef s = None"

text \<open>
  What \<open>s\<close> held has been given back in \<open>s'\<close>: the pending animation frame is cancelled,
  the microphone tracks are stopped, the script processor is disconnected, every
  outstanding node that had been started is stopped, the output context is closed.
  These are the releases \<^verbatim>\<open>stopConversation\<close> performs. The remote channel and the input
  context are not among them: the session is dropped from \<^verbatim>\<open>sessionRef\<close> without being
  closed, and nothing refers to the input context.
\<close>

definition given_back :: "live \<Rightarrow> live \<Rightarrow> bool" where
  "given_back s s' \<longleftrightarrow>
     (animationFrameRef s = 0 \<or> animationFrameRef s \<in> cancelledFrames s')
     \<and> (case mediaStreamRef s of None \<Rightarrow> True | Some m \<Rightarrow> m \<in> stoppedStreams s')
     \<and> (case scriptProcessorRef s of None \<Rightarrow> True | Some p \<Rightarrow> p \<in> disconnected s')
     \<and> set (sourcesRef s) \<inter> set (scheduled s) \<subseteq> stopped s'
     \<and> (case audioContextRef s of None \<Rightarrow> True | Some c \<Rightarrow> c \<in> closedContexts s')"

section \<open>startConversation\<close>

text \<open>
  What the browser hands to a successful start: the output \<^verbatim>\<open>AudioContext\<close> and its
  \<^verbatim>\<open>currentTime\<close>, the script processor, the analyser, and the handle returned by
  \<^verbatim>\<open>requestAnimationFrame\<close>. The 16 kHz input context of the capture pipeline is a local
  variable of \<^verbatim>\<open>startConversation\<close>: it is created, no ref keeps it, and nothing closes it.
\<close>

record devices =
  dev_context :: nat
  dev_time :: real
  dev_input_context :: nat
  dev_processor :: nat
  dev_analyser :: nat
  dev_frame :: nat

text \<open>
  One tick of \<^verbatim>\<open>draw\<close>: it returns when the analyser is gone, otherwise it requests the
  next frame. \<^verbatim>\<open>drawVisualizer\<close> returns early without an analyser (the canvas is part
  of the rendered component and is taken to be there).
\<close>

definition draw :: "nat \<Rightarrow> live \<Rightarrow> live" where
  "draw f s = (if analyserRef s = None then s else s\<lparr>animationFrameRef := f\<rparr>)"

definition drawVisualizer :: "nat \<Rightarrow> live \<Rightarrow> live" where
  "drawVisualizer f s = (if analyserRef s = None then s else draw f s)"

text \<open>Up to \<^verbatim>\<open>await navigator.mediaDevices.getUserMedia\<close>.\<close>

definition start_begin :: "live \<Rightarrow> live" where
  "start_begin s = addLog ''Requesting microphone...'' (setError None s)"

text \<open>
  From the \<^verbatim>\<open>await\<close> on: \<open>mic\<close> is the rejection's message (the empty string when it has
  none) or the media stream. The \<^verbatim>\<open>catch\<close> branch calls \<^verbatim>\<open>stopConversation\<close>.
\<close>

definition start_resume :: "string + nat \<Rightarrow> devices \<Rightarrow> live \<Rightarrow> live" where
  "start_resume mic dev s =
     (case mic of
        Inl e \<Rightarrow>
          stopConversation
            (setError (Some (if e = [] then ''Failed to start conversation'' else e))
               (console_error e s))
      | Inr stream \<Rightarrow>
          (let s1 = s\<lparr>mediaStreamRef := Some stream\<rparr>;
               s2 = addLog ''Initializing AudioContext...'' s1;
               s3 = s2\<lparr>createdContexts := insert (dev_context dev) (createdContexts s2),
                       audioContextRef := Some (dev_context dev),
                       nextStartTimeRef := dev_time dev\<rparr>;
               s4 = s3\<lparr>createdContexts := insert (dev_input_context dev) (createdContexts s3),
                       scriptProcessorRef := Some (dev_processor dev)\<rparr>;
               s5 = s4\<lparr>analyserRef := Some (dev_analyser dev)\<rparr>;
               s6 = drawVisualizer (dev_frame dev) s5;
               s7 = addLog ''Connecting to Gemini Live...'' s6
           in s7\<lparr>connectCalls := Suc (connectCalls s7)\<rparr>))"

definition startConversation :: "string + nat \<Rightarrow> devices \<Rightarrow> live \<Rightarrow> live" where
  "startConversation mic dev s = start_resume mic dev (start_begin s)"

section \<open>Callbacks of the remote channel\<close>

definition onopen :: "live \<Rightarrow> live" where
  "onopen s = (addLog ''Connected!'' s)\<lparr>isConnected := True\<rparr>"

text \<open>\<^verbatim>\<open>onaudioprocess\<close>: the resolved session is stored in \<^verbatim>\<open>sessionRef\<close> and the frame sent.\<close>

definition onaudioprocess :: "nat \<Rightarrow> live \<Rightarrow> live" where
  "onaudioprocess session s = s\<lparr>sessionRef := Some session\<rparr>"

text \<open>\<^verbatim>\<open>Set.add\<close> and \<^verbatim>\<open>Set.delete\<close> on the insertion-ordered set.\<close>

definition set_add :: "'a \<Rightarrow> 'a list \<Rightarrow> 'a list" where
  "set_add x xs = (if x \<in> set xs then xs else xs @ [x])"

definition set_delete :: "'a \<Rightarrow> 'a list \<Rightarrow> 'a list" where
  "set_delete x xs = removeAll x xs"

text \<open>
  The branch \<^verbatim>\<open>if (base64Audio) { ... }\<close> of \<^verbatim>\<open>onmessage\<close>. \<open>now\<close> is
  \<^verbatim>\<open>audioCtx.currentTime\<close> at the \<^verbatim>\<open>Math.max\<close>. The decoder raises after the flag and the
  cursor were written. The handler resumes from its \<^verbatim>\<open>await\<close> on the decoder before any
  other handler runs.
\<close>

definition handle_audio_output :: "decoder \<Rightarrow> string \<Rightarrow> real \<Rightarrow> live \<Rightarrow> outcome" where
  "handle_audio_output dec payload now s =
     (let s1 = s\<lparr>isSpeaking := True\<rparr>;
          s2 = s1\<lparr>nextStartTimeRef := max (nextStartTimeRef s1) now\<rparr>
      in case dec payload of
           Inl e \<Rightarrow> Threw e s2
         | Inr b \<Rightarrow>
             (let n = \<lparr>node_id = nextNodeId s2, start_at = nextStartTimeRef s2,
                       node_buffer = b\<rparr>;
                  s3 = s2\<lparr>scheduled := scheduled s2 @ [n], nextNodeId := Suc (nextNodeId s2)\<rparr>;
                  s4 = s3\<lparr>nextStartTimeRef := nextStartTimeRef s3 + duration b\<rparr>
              in Done (s4\<lparr>sourcesRef := set_add n (sourcesRef s4)\<rparr>)))"

text \<open>The branch \<^verbatim>\<open>if (message.serverContent?.interrupted) { ... }\<close>.\<close>

definition handle_interruption :: "real \<Rightarrow> live \<Rightarrow> outcome" where
  "handle_interruption now s =
     (let s1 = addLog ''Interrupted'' s
      in case stop_each (sourcesRef s1) s1 of
           Threw e s2 \<Rightarrow> Threw e s2
         | Done s2 \<Rightarrow>
             Done (s2\<lparr>sourcesRef := [], nextStartTimeRef := now, isSpeaking := False\<rparr>))"

text \<open>
  \<^verbatim>\<open>onmessage\<close>: \<open>t1\<close> and \<open>t2\<close> are the two readings of \<^verbatim>\<open>audioCtx.currentTime\<close>. A
  payload that is \<^verbatim>\<open>undefined\<close> or the empty string skips the audio branch.
\<close>

definition onmessage :: "decoder \<Rightarrow> message \<Rightarrow> real \<Rightarrow> real \<Rightarrow> live \<Rightarrow> outcome" where
  "onmessage dec m t1 t2 s =
     (case (case audio_data m of
              None \<Rightarrow> Done s
            | Some p \<Rightarrow> if p = [] then Done s else handle_audio_output dec p t1 s) of
        Threw e s' \<Rightarrow> Threw e s'
      | Done s' \<Rightarrow> if interrupted m then handle_interruption t2 s' else Done s')"

text \<open>The audio branch of \<^verbatim>\<open>onmessage\<close> on its own, with the test that guards it.\<close>

definition audio_branch :: "decoder \<Rightarrow> message \<Rightarrow> real \<Rightarrow> live \<Rightarrow> outcome" where
  "audio_branch dec m t1 s =
     (case audio_data m of
        None \<Rightarrow> Done s
      | Some p \<Rightarrow> if p = [] then Done s else handle_audio_output dec p t1 s)"

text \<open>The listener of a node's \<^verbatim>\<open>ended\<close> event.\<close>

definition on_ended :: "source_node \<Rightarrow> live \<Rightarrow> live" where
  "on_ended n s =
     (let s1 = s\<lparr>sourcesRef := set_delete n (sourcesRef s)\<rparr>
      in if sourcesRef s1 = [] then s1\<lparr>isSpeaking := False\<rparr> else s1)"

definition onclose :: "live \<Rightarrow> live" where
  "onclose s = stopConversation (addLog ''Disconnected by server'' s)"

definition onerror :: "string \<Rightarrow> live \<Rightarrow> live" where
  "onerror e s = stopConversation (setError (Some ''Connection error'') (console_error e s))"

text \<open>
  The two callbacks call \<^verbatim>\<open>stopConversation\<close> without awaiting it. \<open>onclose\<close> and \<open>onerror\<close>
  above run that call to its end; the two functions below stop where the call suspends,
  at its \<^verbatim>\<open>await\<close>, and leave the rest to \<open>stop_resume\<close>.
\<close>

definition onclose_begin :: "live \<Rightarrow> stop_phase \<times> live" where
  "onclose_begin s = stop_begin (addLog ''Disconnected by server'' s)"

definition onerror_begin :: "string \<Rightarrow> live \<Rightarrow> stop_phase \<times> live" where
  "onerror_begin e s = stop_begin (setError (Some ''Connection error'') (console_error e s))"

section \<open>Sessions as event sequences\<close>

text \<open>
  The browser runs one handler at a time, up to the point where the handler suspends.
  An event names the handler and carries what the handler reads from the outside: the
  clock readings of \<^verbatim>\<open>onmessage\<close>, the node and the clock time of an \<^verbatim>\<open>ended\<close> event, the
  frame handle of a visualizer tick. \<open>Stop\<close>, \<open>Close\<close> and \<open>Error\<close> run the teardown up to
  its \<^verbatim>\<open>await\<close> on \<^verbatim>\<open>close()\<close>; \<open>Resumed\<close> is the continuation of a teardown, run when
  the awaited promise has settled with the given result. Other events may come in
  between: the remote channel stays open after a stop, so messages can still arrive.
  A sequence may contain a \<open>Resumed\<close> with no teardown waiting; the sequences the browser
  produces are among those considered.
\<close>

datatype event =
    Open
  | AudioProcess nat
  | Frame nat
  | Message message real real
  | Ended source_node real
  | Stop
  | Close
  | Error string
  | Resumed close_result

fun step :: "decoder \<Rightarrow> event \<Rightarrow> live \<Rightarrow> live" where
  "step dec Open s = onopen (s\<lparr>channelOpen := True\<rparr>)"
| "step dec (AudioProcess c) s = onaudioprocess c s"
| "step dec (Frame f) s = draw f s"
| "step dec (Message m t1 t2) s = state_of (onmessage dec m t1 t2 s)"
| "step dec (Ended n t) s = on_ended n s"
| "step dec Stop s = snd (stop_begin s)"
| "step dec Close s = snd (onclose_begin (s\<lparr>channelOpen := False\<rparr>))"
| "step dec (Error e) s = snd (onerror_begin e s)"
| "step dec (Resumed r) s = stop_resume r s"

fun run :: "decoder \<Rightarrow> event list \<Rightarrow> live \<Rightarrow> live" where
  "run dec [] s = s"
| "run dec (e # es) s = run dec es (step dec e s)"

text \<open>
  What the browser guarantees about an event arriving at clock time \<open>t\<close> or later: the
  clock does not go back, and \<^verbatim>\<open>ended\<close> fires on a started node that has been stopped or
  has played to its end.
\<close>

fun timely :: "real \<Rightarrow> live \<Rightarrow> event \<Rightarrow> bool" where
  "timely t s (Message m t1 t2) = (t \<le> t1 \<and> t1 \<le> t2)"
| "timely t s (Ended n te) =
     (t \<le> te \<and> n \<in> set (scheduled s) \<and> (n \<in> stopped s \<or> end_time n \<le> te))"
| "timely t s e = True"

fun clock_after :: "real \<Rightarrow> event \<Rightarrow> real" where
  "clock_after t (Message m t1 t2) = t2"
| "clock_after t (Ended n te) = te"
| "clock_after t e = t"

fun admissible :: "decoder \<Rightarrow> real \<Rightarrow> live \<Rightarrow> event list \<Rightarrow> bool" where
  "admissible dec t s [] = True"
| "admissible dec t s (e # es) =
     (timely t s e \<and> admissible dec (clock_after t e) (step dec e s) es)"

text \<open>The state of a freshly mounted component after a start with the microphone granted.\<close>

definition fresh_session :: "nat \<Rightarrow> devices \<Rightarrow> live" where
  "fresh_session stream dev = startConversation (Inr stream) dev initial_state"

text \<open>A node sounds at \<open>t\<close> when it was started, never stopped, and \<open>t\<close> lies in its span.\<close>

definition audible :: "live \<Rightarrow> source_node \<Rightarrow> real \<Rightarrow> bool" where
  "audible s n t \<longleftrightarrow>
     n \<in> set (scheduled s) \<and> n \<notin> stopped s \<and> start_at n \<le> t \<and> t < end_time n"

text \<open>An event that carries the interruption signal.\<close>

fun interrupts :: "event \<Rightarrow> bool" where
  "interrupts (Message m t1 t2) = interrupted m"
| "interrupts e = False"

text \<open>An inbound message with an audio payload, and one whose payload the decoder rejects.\<close>

fun carries_audio :: "event \<Rightarrow> bool" where
  "carries_audio (Message m t1 t2) = (case audio_data m of None \<Rightarrow> False | Some p \<Rightarrow> p \<noteq> [])"
| "carries_audio e = False"

fun corrupt :: "decoder \<Rightarrow> event \<Rightarrow> bool" where
  "corrupt dec (Message m t1 t2) =
     (case audio_data m of None \<Rightarrow> False | Some p \<Rightarrow> p \<noteq> [] \<and> isl (dec p))"
| "corrupt dec e = False"


fun final_clock :: "real \<Rightarrow> event list \<Rightarrow> real" where
  "final_clock t [] = t"
| "final_clock t (e # es) = final_clock (clock_after t e) es"

text \<open>Every outstanding node has been started.\<close>

definition started_only :: "live \<Rightarrow> bool" where
  "started_only s \<longleftrightarrow> set (sourcesRef s) \<subseteq> set (scheduled s)"

text \<open>Every started node that is not outstanding is stopped or has played to its end by \<open>t\<close>.\<close>

definition quiet_outside :: "real \<Rightarrow> live \<Rightarrow> bool" where
  "quiet_outside t s \<longleftrightarrow>
     (\<forall>n \<in> set (scheduled s). n \<in> set (sourcesRef s) \<or> n \<in> stopped s \<or> end_time n \<le> t)"

text \<open>
  The state without its messages (log lines, error text, console lines, the record of
  surfaced errors): what is left is the connection flags, the refs and the devices.
\<close>

definition without_messages :: "live \<Rightarrow> live" where
  "without_messages s = s\<lparr>logs := [], error := None, console := [], surfaced := []\<rparr>"

section \<open>A sample session\<close>

text \<open>
  A decoder for the payloads of the end-to-end scenario: chunks of 1.0 s, 0.5 s and
  2.0 s at 24 kHz, and a rejection for anything else.
\<close>

definition sample_decoder :: decoder where
  "sample_decoder p =
     (if p = ''one'' then Inr \<lparr>frames = 24000, sample_rate = 24000\<rparr>
      else if p = ''half'' then Inr \<lparr>frames = 12000, sample_rate = 24000\<rparr>
      else if p = ''two'' then Inr \<lparr>frames = 48000, sample_rate = 24000\<rparr>
      else Inl ''undecodable'')"

definition sample_devices :: devices where
  "sample_devices =
     \<lparr>dev_context = 1, dev_time = 0, dev_input_context = 5, dev_processor = 2,
      dev_analyser = 3, dev_frame = 4\<rparr>"

definition chunk :: "string \<Rightarrow> message" where
  "chunk p = \<lparr>audio_data = Some p, interrupted = False\<rparr>"

definition sample_session :: live where
  "sample_session = step sample_decoder Open (fresh_session 7 sample_devices)"

section \<open>Video generation: the request and its retry\<close>

text \<open>
  \<^verbatim>\<open>generateVideo\<close> of \<^verbatim>\<open>VeoStudio\<close>, from the first \<^verbatim>\<open>ai.models.generateVideos\<close> call to the
  point where polling begins, with the outer \<^verbatim>\<open>catch\<close> and \<^verbatim>\<open>finally\<close>. The environment
  says whether \<^verbatim>\<open>window.aistudio?.openSelectKey\<close> exists and how each awaited call
  settles: a request resolves to an operation or rejects with a message, the key
  selection resolves or rejects with a message.
\<close>

record veo_env =
  has_selector :: bool
  first_request :: "string + nat"
  select_key :: "string option"
  second_request :: "string + nat"

datatype call = GenerateVideos | OpenSelectKey

text \<open>\<^verbatim>\<open>hay.includes(needle)\<close>.\<close>

fun str_includes :: "string \<Rightarrow> string \<Rightarrow> bool" where
  "str_includes needle [] = (needle = [])"
| "str_includes needle (c # cs) =
     (take (length needle) (c # cs) = needle \<or> str_includes needle cs)"

text \<open>
  \<^verbatim>\<open>err.message && (err.message.includes('Requested entity was not found') ||
  err.message.includes('403'))\<close>; a missing message is the empty string.
\<close>

definition retryable :: "string \<Rightarrow> bool" where
  "retryable e \<longleftrightarrow>
     e \<noteq> [] \<and> (str_includes ''Requested entity was not found'' e \<or> str_includes ''403'' e)"

text \<open>The inner \<^verbatim>\<open>try\<close>/\<^verbatim>\<open>catch\<close>: its result and the calls made, in order.\<close>

definition request_video :: "veo_env \<Rightarrow> (string + nat) \<times> call list" where
  "request_video env =
     (case first_request env of
        Inr operation \<Rightarrow> (Inr operation, [GenerateVideos])
      | Inl e \<Rightarrow>
          if retryable e then
            if has_selector env then
              (case select_key env of
                 Some e' \<Rightarrow> (Inl e', [GenerateVideos, OpenSelectKey])
               | None \<Rightarrow> (second_request env, [GenerateVideos, OpenSelectKey, GenerateVideos]))
            else (Inl e, [GenerateVideos])
          else (Inl e, [GenerateVideos]))"

record veo =
  veo_error :: "string option"
  isGenerating :: bool
  statusMessage :: string
  veo_console :: "string list"

text \<open>
  The request inside the outer \<^verbatim>\<open>try\<close>: a rejection reaches the outer \<^verbatim>\<open>catch\<close>
  (\<^verbatim>\<open>setError(err.message || "An unexpected error occurred.")\<close>) and \<^verbatim>\<open>finally\<close>; a
  resolved request hands the operation to the polling loop.
\<close>

definition request_phase :: "veo_env \<Rightarrow> veo \<Rightarrow> nat option \<times> call list \<times> veo" where
  "request_phase env v =
     (case request_video env of
        (Inr operation, calls) \<Rightarrow>
          (Some operation, calls,
           v\<lparr>statusMessage := ''Dreaming... This may take a moment.''\<rparr>)
      | (Inl e, calls) \<Rightarrow>
          (None, calls,
           v\<lparr>veo_console := veo_console v @ [e],
             veo_error := Some (if e = [] then ''An unexpected error occurred.'' else e),
             isGenerating := False\<rparr>))"

section \<open>Auxiliary facts\<close>

lemma stop_each_caught_eq:
  "stop_each_caught ns s = s\<lparr>stopped := stopped s \<union> (set ns \<inter> set (scheduled s))\<rparr>"
proof (induction ns arbitrary: s)
  case Nil
  show ?case by simp
next
  case (Cons n ns)
  show ?case
  proof (cases "n \<in> set (scheduled s)")
    case True
    then have "insert n (stopped s) \<union> (set ns \<inter> set (scheduled s))
               = stopped s \<union> (set (n # ns) \<inter> set (scheduled s))"
      by auto
    with True show ?thesis by (simp add: Cons.IH node_stop_def)
  next
    case False
    then have "set ns \<inter> set (scheduled s) = set (n # ns) \<inter> set (scheduled s)"
      by auto
    with False show ?thesis by (simp add: Cons.IH node_stop_def)
  qed
qed

lemma stop_each_started:
  "set ns \<subseteq> set (scheduled s) \<Longrightarrow> stop_each ns s = Done (s\<lparr>stopped := stopped s \<union> set ns\<rparr>)"
proof (induction ns arbitrary: s)
  case Nil
  show ?case by simp
next
  case (Cons n ns)
  then show ?case by (simp add: node_stop_def)
qed

lemma stop_each_state:
  "\<exists>X. state_of (stop_each ns s) = s\<lparr>stopped := X\<rparr> \<and> stopped s \<subseteq> X"
proof (induction ns arbitrary: s)
  case Nil
  show ?case by (intro exI[of _ "stopped s"]) simp
next
  case (Cons n ns)
  show ?case
  proof (cases "n \<in> set (scheduled s)")
    case True
    from Cons.IH[of "s\<lparr>stopped := insert n (stopped s)\<rparr>"]
    obtain X where "state_of (stop_each ns (s\<lparr>stopped := insert n (stopped s)\<rparr>)) = s\<lparr>stopped := X\<rparr>"
       and "insert n (stopped s) \<subseteq> X" by auto
    with True show ?thesis by (intro exI[of _ X]) (simp add: node_stop_def)
  next
    case False
    then show ?thesis by (intro exI[of _ "stopped s"]) (simp add: node_stop_def)
  qed
qed

lemma stop_release_eq:
  "stop_release s =
     s\<lparr>cancelledFrames := (if animationFrameRef s \<noteq> 0
                             then insert (animationFrameRef s) (cancelledFrames s)
                             else cancelledFrames s),
       animationFrameRef := 0,
       analyserRef := None,
       sessionRef := None,
       stoppedStreams := (case mediaStreamRef s of None \<Rightarrow> stoppedStreams s
                          | Some m \<Rightarrow> insert m (stoppedStreams s)),
       mediaStreamRef := None,
       disconnected := (case scriptProcessorRef s of None \<Rightarrow> disconnected s
                        | Some p \<Rightarrow> insert p (disconnected s)),
       scriptProcessorRef := None,
       stopped := stopped s \<union> (set (sourcesRef s) \<inter> set (scheduled s)),
       sourcesRef := []\<rparr>"
  by (simp add: stop_release_def Let_def stop_each_caught_eq split: option.splits)

lemma stopConversation_eq:
  "stopConversation s =
     (stop_release s)
       \<lparr>closedContexts := (case audioContextRef s of None \<Rightarrow> closedContexts s
                           | Some c \<Rightarrow> insert c (closedContexts s)),
        console := (case audioContextRef s of None \<Rightarrow> console s
                    | Some c \<Rightarrow> if c \<in> closedContexts s
                                then console s @ [''InvalidStateError''] else console s),
        audioContextRef := None,
        isConnected := False,
        isSpeaking := False,
        logs := addLog_update ''Conversation ended'' (logs s)\<rparr>"
  by (simp add: stopConversation_def stop_begin_def stop_resume_def stop_tail_def ctx_close_def
        addLog_def console_error_def stop_release_eq Let_def insert_absorb split: option.splits)

lemma stop_begin_snd:
  "snd (stop_begin s) =
     (case audioContextRef s of
        None \<Rightarrow> stop_tail (stop_release s)
      | Some c \<Rightarrow> (stop_release s)\<lparr>closedContexts := insert c (closedContexts s)\<rparr>)"
  by (simp add: stop_begin_def ctx_close_def stop_release_eq Let_def insert_absorb
        split: option.splits)

lemma stop_begin_fields:
  "nextStartTimeRef (snd (stop_begin s)) = nextStartTimeRef s"
  "scheduled (snd (stop_begin s)) = scheduled s"
  "sourcesRef (snd (stop_begin s)) = []"
  "stopped (snd (stop_begin s)) = stopped s \<union> (set (sourcesRef s) \<inter> set (scheduled s))"
  by (simp_all add: stop_begin_snd stop_tail_def addLog_def stop_release_eq split: option.splits)

lemma stop_resume_fields:
  "nextStartTimeRef (stop_resume r s) = nextStartTimeRef s"
  "scheduled (stop_resume r s) = scheduled s"
  "sourcesRef (stop_resume r s) = sourcesRef s"
  "stopped (stop_resume r s) = stopped s"
  "isSpeaking (stop_resume r s) = False"
  "isConnected (stop_resume r s) = False"
  by (simp_all add: stop_resume_def stop_tail_def addLog_def console_error_def
        split: close_result.splits)

lemma onclose_split:
  "onclose s = (case onclose_begin s of (Finished, s') \<Rightarrow> s' | (Awaiting r, s') \<Rightarrow> stop_resume r s')"
  by (simp add: onclose_def onclose_begin_def stopConversation_def)

lemma onerror_split:
  "onerror e s =
     (case onerror_begin e s of (Finished, s') \<Rightarrow> s' | (Awaiting r, s') \<Rightarrow> stop_resume r s')"
  by (simp add: onerror_def onerror_begin_def stopConversation_def)

lemma duration_nonneg: "0 \<le> duration b"
  by (simp add: duration_def)

lemma handle_audio_output_ok:
  assumes "dec p = Inr b"
  shows "handle_audio_output dec p now s =
           Done (s\<lparr>isSpeaking := True,
                   scheduled := scheduled s @ [\<lparr>node_id = nextNodeId s, start_at = max (nextStartTimeRef s) now, node_buffer = b\<rparr>],
                   nextNodeId := Suc (nextNodeId s),
                   nextStartTimeRef := max (nextStartTimeRef s) now + duration b,
                   sourcesRef := set_add \<lparr>node_id = nextNodeId s, start_at = max (nextStartTimeRef s) now, node_buffer = b\<rparr> (sourcesRef s)\<rparr>)"
  using assms by (simp add: handle_audio_output_def Let_def)

lemma handle_audio_output_fail:
  assumes "dec p = Inl e"
  shows "handle_audio_output dec p now s =
           Threw e (s\<lparr>isSpeaking := True, nextStartTimeRef := max (nextStartTimeRef s) now\<rparr>)"
  using assms by (simp add: handle_audio_output_def Let_def)

lemma handle_audio_output_cursor:
  "nextStartTimeRef s \<le> nextStartTimeRef (state_of (handle_audio_output dec p now s))"
proof (cases "dec p")
  case (Inl e)
  then show ?thesis by (simp add: handle_audio_output_fail)
next
  case (Inr b)
  have "nextStartTimeRef s \<le> max (nextStartTimeRef s) now + duration b"
    using duration_nonneg[of b] by linarith
  with Inr show ?thesis by (simp add: handle_audio_output_ok)
qed

lemma handle_interruption_cursor:
  "nextStartTimeRef (state_of (handle_interruption now s)) = nextStartTimeRef s
   \<or> nextStartTimeRef (state_of (handle_interruption now s)) = now"
proof -
  obtain X where X: "state_of (stop_each (sourcesRef (addLog ''Interrupted'' s)) (addLog ''Interrupted'' s))
      = (addLog ''Interrupted'' s)\<lparr>stopped := X\<rparr>"
    using stop_each_state by blast
  show ?thesis
  proof (cases "stop_each (sourcesRef (addLog ''Interrupted'' s)) (addLog ''Interrupted'' s)")
    case (Done s2)
    then show ?thesis by (simp add: handle_interruption_def Let_def)
  next
    case (Threw e s2)
    with X show ?thesis by (simp add: handle_interruption_def Let_def addLog_def)
  qed
qed

lemma onmessage_cursor:
  "nextStartTimeRef s \<le> nextStartTimeRef (state_of (onmessage dec m t1 t2 s))
   \<or> (interrupted m \<and> nextStartTimeRef (state_of (onmessage dec m t1 t2 s)) = t2)"
proof -
  define r where "r = (case audio_data m of None \<Rightarrow> Done s
            | Some p \<Rightarrow> if p = [] then Done s else handle_audio_output dec p t1 s)"
  have le: "nextStartTimeRef s \<le> nextStartTimeRef (state_of r)"
    unfolding r_def using handle_audio_output_cursor[of s dec _ t1]
    by (simp split: option.splits)
  have om: "onmessage dec m t1 t2 s =
     (case r of Threw e s' \<Rightarrow> Threw e s'
      | Done s' \<Rightarrow> if interrupted m then handle_interruption t2 s' else Done s')"
    by (simp add: onmessage_def r_def)
  show ?thesis
  proof (cases r)
    case (Threw e s')
    with le om show ?thesis by simp
  next
    case (Done s')
    show ?thesis
    proof (cases "interrupted m")
      case False
      with le om Done show ?thesis by simp
    next
      case True
      with le om Done handle_interruption_cursor[of t2 s'] show ?thesis by auto
    qed
  qed
qed

lemma stopConversation_fields:
  "nextStartTimeRef (stopConversation s) = nextStartTimeRef s"
  "scheduled (stopConversation s) = scheduled s"
  "sourcesRef (stopConversation s) = []"
  "isSpeaking (stopConversation s) = False"
  "isConnected (stopConversation s) = False"
  "stopped (stopConversation s) = stopped s \<union> (set (sourcesRef s) \<inter> set (scheduled s))"
  "connectCalls (stopConversation s) = connectCalls s"
  "error (stopConversation s) = error s"
  "surfaced (stopConversation s) = surfaced s"
  "logs (stopConversation s) = addLog_update ''Conversation ended'' (logs s)"
  by (simp_all add: stopConversation_eq stop_release_eq)

lemma released_stopConversation: "released (stopConversation s)"
  by (simp add: released_def stopConversation_eq stop_release_eq)

lemma given_back_stopConversation: "given_back s (stopConversation s)"
  by (simp add: given_back_def stopConversation_eq stop_release_eq split: option.splits)


lemma step_cursor:
  "\<not> interrupts e \<Longrightarrow> nextStartTimeRef s \<le> nextStartTimeRef (step dec e s)"
proof (cases e)
  case (Message m t1 t2)
  assume "\<not> interrupts e"
  with Message onmessage_cursor[of s dec m t1 t2] show ?thesis by auto
qed (simp_all add: onopen_def addLog_def onaudioprocess_def draw_def on_ended_def Let_def
       stop_begin_fields stop_resume_fields onclose_begin_def onerror_begin_def
       setError_def console_error_def)

lemma run_cursor:
  "\<forall>e \<in> set evs. \<not> interrupts e \<Longrightarrow> nextStartTimeRef s \<le> nextStartTimeRef (run dec evs s)"
proof (induction evs arbitrary: s)
  case Nil
  show ?case by simp
next
  case (Cons e evs)
  have "nextStartTimeRef s \<le> nextStartTimeRef (step dec e s)"
    using Cons.prems step_cursor by simp
  also have "\<dots> \<le> nextStartTimeRef (run dec evs (step dec e s))"
    using Cons.IH Cons.prems by simp
  finally show ?case by simp
qed

lemma handle_interruption_scheduled:
  "scheduled (state_of (handle_interruption now s)) = scheduled s"
proof -
  obtain X where X: "state_of (stop_each (sourcesRef (addLog ''Interrupted'' s)) (addLog ''Interrupted'' s))
      = (addLog ''Interrupted'' s)\<lparr>stopped := X\<rparr>"
    using stop_each_state by blast
  show ?thesis
  proof (cases "stop_each (sourcesRef (addLog ''Interrupted'' s)) (addLog ''Interrupted'' s)")
    case (Done s2)
    with X show ?thesis by (simp add: handle_interruption_def Let_def addLog_def)
  next
    case (Threw e s2)
    with X show ?thesis by (simp add: handle_interruption_def Let_def addLog_def)
  qed
qed

lemma run_append: "run dec (xs @ ys) s = run dec ys (run dec xs s)"
  by (induction xs arbitrary: s) simp_all

lemma sample_schedule:
  "map start_at (scheduled (run sample_decoder
       [Message (chunk ''one'') (1/10) (1/10), Message (chunk ''half'') (2/10) (2/10),
        Message (chunk ''two'') 5 5] sample_session)) = [1/10, 11/10, 5]"
  by (simp add: sample_session_def sample_decoder_def sample_devices_def chunk_def fresh_session_def
        startConversation_def start_resume_def start_begin_def onmessage_def
        handle_audio_output_def onopen_def addLog_def setError_def initial_state_def
        drawVisualizer_def draw_def set_add_def duration_def Let_def)

lemma handle_interruption_done:
  "handle_interruption now s = Done s' \<Longrightarrow>
     nextStartTimeRef s' = now \<and> sourcesRef s' = [] \<and> \<not> isSpeaking s'"
  by (auto simp add: handle_interruption_def Let_def split: outcome.splits)

lemma onmessage_reset:
  assumes "interrupted m" and "\<not> threw (onmessage dec m t1 t2 s)"
  shows "nextStartTimeRef (state_of (onmessage dec m t1 t2 s)) = t2"
proof -
  obtain s' where d: "onmessage dec m t1 t2 s = Done s'"
    using assms(2) by (cases "onmessage dec m t1 t2 s") simp_all
  then obtain s1 where "handle_interruption t2 s1 = Done s'"
    using assms(1) by (auto simp add: onmessage_def split: outcome.splits option.splits if_splits)
  then show ?thesis using d handle_interruption_done by simp
qed

lemma start_begin_refs:
  "animationFrameRef (start_begin s) = animationFrameRef s"
  "mediaStreamRef (start_begin s) = mediaStreamRef s"
  "scriptProcessorRef (start_begin s) = scriptProcessorRef s"
  "sourcesRef (start_begin s) = sourcesRef s"
  "scheduled (start_begin s) = scheduled s"
  "audioContextRef (start_begin s) = audioContextRef s"
  "isConnected (start_begin s) = isConnected s"
  "connectCalls (start_begin s) = connectCalls s"
  "surfaced (start_begin s) = surfaced s"
  by (simp_all add: start_begin_def addLog_def setError_def)


lemma onmessage_alt:
  "onmessage dec m t1 t2 s =
     (case audio_branch dec m t1 s of
        Threw e s' \<Rightarrow> Threw e s'
      | Done s' \<Rightarrow> if interrupted m then handle_interruption t2 s' else Done s')"
  by (simp add: onmessage_def audio_branch_def)

lemma audio_branch_corrupt:
  assumes "corrupt dec (Message m t1 t2)"
  shows "\<exists>e. audio_branch dec m t1 s =
           Threw e (s\<lparr>isSpeaking := True, nextStartTimeRef := max (nextStartTimeRef s) t1\<rparr>)"
proof -
  from assms obtain p where p: "audio_data m = Some p" "p \<noteq> []" "isl (dec p)"
    by (auto split: option.splits)
  then obtain e where "dec p = Inl e" by (cases "dec p") simp_all
  with p show ?thesis by (simp add: audio_branch_def handle_audio_output_fail)
qed

lemma audio_branch_silent:
  assumes "\<not> carries_audio (Message m t1 t2)"
  shows "audio_branch dec m t1 s = Done s"
  using assms by (auto simp add: audio_branch_def split: option.splits)

lemma audio_branch_plays:
  assumes "carries_audio (Message m t1 t2)" and "\<not> corrupt dec (Message m t1 t2)"
  shows "\<exists>n. audio_branch dec m t1 s =
           Done (s\<lparr>isSpeaking := True, scheduled := scheduled s @ [n],
                   nextNodeId := Suc (nextNodeId s),
                   nextStartTimeRef := end_time n,
                   sourcesRef := set_add n (sourcesRef s)\<rparr>)
           \<and> start_at n = max (nextStartTimeRef s) t1"
proof -
  from assms obtain p where p: "audio_data m = Some p" "p \<noteq> []" "\<not> isl (dec p)"
    by (auto split: option.splits)
  then obtain b where b: "dec p = Inr b" by (cases "dec p") simp_all
  let ?n = "\<lparr>node_id = nextNodeId s, start_at = max (nextStartTimeRef s) t1, node_buffer = b\<rparr>"
  have "audio_branch dec m t1 s =
           Done (s\<lparr>isSpeaking := True, scheduled := scheduled s @ [?n],
                   nextNodeId := Suc (nextNodeId s),
                   nextStartTimeRef := end_time ?n,
                   sourcesRef := set_add ?n (sourcesRef s)\<rparr>)"
    using p b by (simp add: audio_branch_def handle_audio_output_ok end_time_def)
  then show ?thesis by (intro exI[of _ ?n]) simp
qed

lemma handle_interruption_started:
  assumes "started_only s"
  shows "handle_interruption now s =
           Done (s\<lparr>logs := addLog_update ''Interrupted'' (logs s),
                   stopped := stopped s \<union> set (sourcesRef s),
                   sourcesRef := [], nextStartTimeRef := now, isSpeaking := False\<rparr>)"
proof -
  have "set (sourcesRef (addLog ''Interrupted'' s)) \<subseteq> set (scheduled (addLog ''Interrupted'' s))"
    using assms by (simp add: started_only_def addLog_def)
  then show ?thesis
    by (simp add: handle_interruption_def Let_def stop_each_started) (simp add: addLog_def)
qed

lemma set_set_add: "set (set_add x xs) = insert x (set xs)"
  by (auto simp add: set_add_def)


lemma quiet_outside_mono:
  "quiet_outside t s \<Longrightarrow> t \<le> t' \<Longrightarrow> quiet_outside t' s"
  unfolding quiet_outside_def by (meson order_trans)

lemma inv_after_interruption:
  assumes "started_only a" and "quiet_outside t a"
  shows "started_only (state_of (handle_interruption now a))
         \<and> quiet_outside t (state_of (handle_interruption now a))"
  using assms
  by (auto simp add: handle_interruption_started started_only_def quiet_outside_def)

lemma inv_after_audio:
  assumes "started_only s" and "quiet_outside t s"
  shows "started_only (s\<lparr>isSpeaking := True, scheduled := scheduled s @ [n],
                   nextNodeId := k, nextStartTimeRef := c,
                   sourcesRef := set_add n (sourcesRef s)\<rparr>)
         \<and> quiet_outside t (s\<lparr>isSpeaking := True, scheduled := scheduled s @ [n],
                   nextNodeId := k, nextStartTimeRef := c,
                   sourcesRef := set_add n (sourcesRef s)\<rparr>)"
  using assms
  by (auto simp add: started_only_def quiet_outside_def set_set_add)

lemma inv_after_stop:
  assumes "started_only s" and "quiet_outside t s"
  shows "started_only (snd (stop_begin s)) \<and> quiet_outside t (snd (stop_begin s))"
  using assms
  by (auto simp add: started_only_def quiet_outside_def stop_begin_fields)

lemma inv_after_resume:
  assumes "started_only s" and "quiet_outside t s"
  shows "started_only (stop_resume r s) \<and> quiet_outside t (stop_resume r s)"
  using assms
  by (simp add: started_only_def quiet_outside_def stop_resume_fields)

lemma inv_message:
  assumes "started_only s" and "quiet_outside t s" and "t \<le> t2"
  shows "started_only (state_of (onmessage dec m t1 t2 s))
         \<and> quiet_outside t2 (state_of (onmessage dec m t1 t2 s))"
proof -
  have q2: "quiet_outside t2 s" using assms(2,3) by (rule quiet_outside_mono)
  show ?thesis
  proof (cases "corrupt dec (Message m t1 t2)")
    case True
    then obtain e where "audio_branch dec m t1 s =
           Threw e (s\<lparr>isSpeaking := True, nextStartTimeRef := max (nextStartTimeRef s) t1\<rparr>)"
      using audio_branch_corrupt by blast
    with assms(1) q2 show ?thesis
      by (simp add: onmessage_alt started_only_def quiet_outside_def)
  next
    case False
    obtain a where a: "audio_branch dec m t1 s = Done a" "started_only a" "quiet_outside t2 a"
    proof (cases "carries_audio (Message m t1 t2)")
      case True
      from audio_branch_plays[OF True False, of s] obtain n where
        "audio_branch dec m t1 s =
           Done (s\<lparr>isSpeaking := True, scheduled := scheduled s @ [n],
                   nextNodeId := Suc (nextNodeId s),
                   nextStartTimeRef := end_time n,
                   sourcesRef := set_add n (sourcesRef s)\<rparr>)" by blast
      with inv_after_audio[OF assms(1) q2] that show ?thesis by blast
    next
      case False
      with audio_branch_silent[OF False] assms(1) q2 that show ?thesis by blast
    qed
    show ?thesis
    proof (cases "interrupted m")
      case True
      with a inv_after_interruption[OF a(2,3), of t2] show ?thesis
        by (simp add: onmessage_alt)
    next
      case False
      with a show ?thesis by (simp add: onmessage_alt)
    qed
  qed
qed

lemma inv_ended:
  assumes "started_only s" and "quiet_outside t s" and "t \<le> te"
    and "n \<in> stopped s \<or> end_time n \<le> te"
  shows "started_only (on_ended n s) \<and> quiet_outside te (on_ended n s)"
proof -
  have q: "quiet_outside te s" using assms(2,3) by (rule quiet_outside_mono)
  have "sourcesRef (on_ended n s) = removeAll n (sourcesRef s)"
    by (simp add: on_ended_def set_delete_def Let_def)
  then have f: "scheduled (on_ended n s) = scheduled s" "stopped (on_ended n s) = stopped s"
    "set (sourcesRef (on_ended n s)) = set (sourcesRef s) - {n}"
    by (simp_all add: on_ended_def Let_def)
  show ?thesis
    unfolding started_only_def quiet_outside_def f
    using assms(1,4) q unfolding started_only_def quiet_outside_def by auto
qed

lemma step_inv:
  assumes "started_only s" and "quiet_outside t s" and "timely t s e"
  shows "started_only (step dec e s) \<and> quiet_outside (clock_after t e) (step dec e s)"
proof (cases e)
  case (Message m t1 t2)
  with assms inv_message[of s t t2 dec m t1] show ?thesis by simp
next
  case (Ended n te)
  with assms inv_ended[of s t te n] show ?thesis by simp
next
  case Stop
  with assms inv_after_stop show ?thesis by simp
next
  case Close
  have "started_only (addLog ''Disconnected by server'' (s\<lparr>channelOpen := False\<rparr>))"
       "quiet_outside t (addLog ''Disconnected by server'' (s\<lparr>channelOpen := False\<rparr>))"
    using assms(1,2) by (simp_all add: started_only_def quiet_outside_def addLog_def)
  with Close inv_after_stop show ?thesis by (simp add: onclose_begin_def)
next
  case (Resumed r)
  with assms inv_after_resume show ?thesis by simp
next
  case (Error x)
  have "started_only (setError (Some ''Connection error'') (console_error x s))"
       "quiet_outside t (setError (Some ''Connection error'') (console_error x s))"
    using assms(1,2)
    by (simp_all add: started_only_def quiet_outside_def setError_def console_error_def)
  with Error inv_after_stop show ?thesis by (simp add: onerror_begin_def)
next
  case Open
  with assms(1,2) show ?thesis
    by (simp add: started_only_def quiet_outside_def onopen_def addLog_def)
next
  case (AudioProcess c)
  with assms(1,2) show ?thesis
    by (simp add: started_only_def quiet_outside_def onaudioprocess_def)
next
  case (Frame f)
  with assms(1,2) show ?thesis
    by (simp add: started_only_def quiet_outside_def draw_def)
qed

lemma run_inv:
  assumes "admissible dec t s evs" and "started_only s" and "quiet_outside t s"
  shows "started_only (run dec evs s) \<and> quiet_outside (final_clock t evs) (run dec evs s)"
  using assms
proof (induction evs arbitrary: t s)
  case Nil
  then show ?case by simp
next
  case (Cons e evs)
  from Cons.prems have "timely t s e" "admissible dec (clock_after t e) (step dec e s) evs"
    by simp_all
  with step_inv[OF Cons.prems(2,3) \<open>timely t s e\<close>, of dec] Cons.IH
  show ?case by simp
qed

lemma fresh_session_fields:
  "sourcesRef (fresh_session stream dev) = []"
  "scheduled (fresh_session stream dev) = []"
  "isSpeaking (fresh_session stream dev) = False"
  "nextStartTimeRef (fresh_session stream dev) = dev_time dev"
  by (simp_all add: fresh_session_def startConversation_def start_resume_def start_begin_def
        addLog_def setError_def drawVisualizer_def draw_def initial_state_def Let_def)

lemma fresh_session_inv:
  "started_only (fresh_session stream dev) \<and> quiet_outside t (fresh_session stream dev)"
  by (simp add: started_only_def quiet_outside_def fresh_session_fields)

lemma admissible_append:
  "admissible dec t s (xs @ ys) \<longleftrightarrow>
     admissible dec t s xs \<and> admissible dec (final_clock t xs) (run dec xs s) ys"
  by (induction xs arbitrary: t s) auto

lemma audio_branch_stopped: "stopped (state_of (audio_branch dec m t1 s)) = stopped s"
proof (cases "corrupt dec (Message m t1 t2)")
  case True
  from audio_branch_corrupt[OF True, of s] show ?thesis by auto
next
  case False
  show ?thesis
  proof (cases "carries_audio (Message m t1 t2)")
    case True
    from audio_branch_plays[OF True False, of s] show ?thesis by auto
  next
    case False
    from audio_branch_silent[OF False, of dec s] show ?thesis by simp
  qed
qed

lemma handle_interruption_stopped_mono:
  "stopped s \<subseteq> stopped (state_of (handle_interruption now s))"
proof -
  obtain X where X: "state_of (stop_each (sourcesRef (addLog ''Interrupted'' s)) (addLog ''Interrupted'' s))
      = (addLog ''Interrupted'' s)\<lparr>stopped := X\<rparr>" "stopped (addLog ''Interrupted'' s) \<subseteq> X"
    using stop_each_state by blast
  show ?thesis
  proof (cases "stop_each (sourcesRef (addLog ''Interrupted'' s)) (addLog ''Interrupted'' s)")
    case (Done s2)
    with X show ?thesis by (simp add: handle_interruption_def Let_def addLog_def)
  next
    case (Threw e s2)
    with X show ?thesis by (simp add: handle_interruption_def Let_def addLog_def)
  qed
qed

lemma onmessage_stopped_mono:
  "stopped s \<subseteq> stopped (state_of (onmessage dec m t1 t2 s))"
proof (cases "audio_branch dec m t1 s")
  case (Threw e a)
  with audio_branch_stopped[of dec m t1 s] show ?thesis by (simp add: onmessage_alt)
next
  case (Done a)
  with audio_branch_stopped[of dec m t1 s] handle_interruption_stopped_mono[of a t2]
  show ?thesis by (simp add: onmessage_alt)
qed

lemma step_stopped_mono: "stopped s \<subseteq> stopped (step dec e s)"
proof (cases e)
  case (Message m t1 t2)
  with onmessage_stopped_mono show ?thesis by simp
qed (auto simp add: onopen_def addLog_def onaudioprocess_def draw_def on_ended_def Let_def
       stop_begin_fields stop_resume_fields onclose_begin_def onerror_begin_def
       setError_def console_error_def)

lemma run_stopped_mono: "stopped s \<subseteq> stopped (run dec evs s)"
proof (induction evs arbitrary: s)
  case Nil
  show ?case by simp
next
  case (Cons e evs)
  from step_stopped_mono[of s dec e] Cons.IH[of "step dec e s"] show ?case by auto
qed

lemma step_scheduled_mono: "set (scheduled s) \<subseteq> set (scheduled (step dec e s))"
proof (cases e)
  case (Message m t1 t2)
  have "set (scheduled s) \<subseteq> set (scheduled (state_of (audio_branch dec m t1 s)))"
  proof (cases "corrupt dec (Message m t1 t2)")
    case True
    from audio_branch_corrupt[OF True, of s] show ?thesis by auto
  next
    case False
    show ?thesis
    proof (cases "carries_audio (Message m t1 t2)")
      case True
      from audio_branch_plays[OF True False, of s] show ?thesis by auto
    next
      case False
      from audio_branch_silent[OF False, of dec s] show ?thesis by simp
    qed
  qed
  moreover have "scheduled (state_of (onmessage dec m t1 t2 s))
        = scheduled (state_of (audio_branch dec m t1 s))"
    using handle_interruption_scheduled
    by (cases "audio_branch dec m t1 s") (simp_all add: onmessage_alt)
  ultimately show ?thesis using Message by simp
qed (auto simp add: onopen_def addLog_def onaudioprocess_def draw_def on_ended_def Let_def
       stop_begin_fields stop_resume_fields onclose_begin_def onerror_begin_def
       setError_def console_error_def)

lemma run_scheduled_mono: "set (scheduled s) \<subseteq> set (scheduled (run dec evs s))"
proof (induction evs arbitrary: s)
  case Nil
  show ?case by simp
next
  case (Cons e evs)
  from step_scheduled_mono[of s dec e] Cons.IH[of "step dec e s"] show ?case by auto
qed

lemma interruption_after_session:
  assumes adm: "admissible dec t s0 (evs @ [Message m t1 t2])"
    and inv0: "started_only s0" "quiet_outside t s0"
    and int: "interrupted m" and ok: "\<not> corrupt dec (Message m t1 t2)"
  defines "s \<equiv> run dec evs s0"
  defines "r \<equiv> onmessage dec m t1 t2 s"
  shows "\<not> threw r" and "set (sourcesRef s) \<subseteq> stopped (state_of r)"
    and "sourcesRef (state_of r) = []" and "nextStartTimeRef (state_of r) = t2"
    and "\<not> isSpeaking (state_of r)"
    and "\<forall>n \<in> set (scheduled (state_of r)). n \<in> stopped (state_of r) \<or> end_time n \<le> t2"
proof -
  from adm have a1: "admissible dec t s0 evs" and tm: "final_clock t evs \<le> t1" "t1 \<le> t2"
    by (simp_all add: admissible_append s_def)
  from run_inv[OF a1 inv0] have inv: "started_only s" "quiet_outside (final_clock t evs) s"
    by (simp_all add: s_def)
  from inv(2) tm have q2: "quiet_outside t2 s" by (meson quiet_outside_mono order_trans)
  obtain a where a: "audio_branch dec m t1 s = Done a" "started_only a" "quiet_outside t2 a"
      "set (sourcesRef s) \<subseteq> set (sourcesRef a)"
  proof (cases "carries_audio (Message m t1 t2)")
    case True
    from audio_branch_plays[OF True ok, of s] obtain n where
      n: "audio_branch dec m t1 s =
           Done (s\<lparr>isSpeaking := True, scheduled := scheduled s @ [n],
                   nextNodeId := Suc (nextNodeId s),
                   nextStartTimeRef := end_time n,
                   sourcesRef := set_add n (sourcesRef s)\<rparr>)" by blast
    show ?thesis
      by (rule that[OF n]) (use inv_after_audio[OF inv(1) q2] in \<open>auto simp add: set_set_add\<close>)
  next
    case False
    with audio_branch_silent[OF False] inv(1) q2 that show ?thesis by auto
  qed
  have r: "r = Done (a\<lparr>logs := addLog_update ''Interrupted'' (logs a),
                   stopped := stopped a \<union> set (sourcesRef a),
                   sourcesRef := [], nextStartTimeRef := t2, isSpeaking := False\<rparr>)"
    using a(1) int handle_interruption_started[OF a(2), of t2]
    by (simp add: r_def onmessage_alt)
  show "\<not> threw r" "sourcesRef (state_of r) = []" "nextStartTimeRef (state_of r) = t2"
    "\<not> isSpeaking (state_of r)"
    by (simp_all add: r)
  show "set (sourcesRef s) \<subseteq> stopped (state_of r)"
    using a(4) by (auto simp add: r)
  show "\<forall>n \<in> set (scheduled (state_of r)). n \<in> stopped (state_of r) \<or> end_time n \<le> t2"
    using a(3) by (auto simp add: r quiet_outside_def)
qed

lemma handle_interruption_keeps:
  "isConnected (state_of (handle_interruption now s)) = isConnected s"
  "audioContextRef (state_of (handle_interruption now s)) = audioContextRef s"
  "mediaStreamRef (state_of (handle_interruption now s)) = mediaStreamRef s"
  "scriptProcessorRef (state_of (handle_interruption now s)) = scriptProcessorRef s"
  "sessionRef (state_of (handle_interruption now s)) = sessionRef s"
  "console (state_of (handle_interruption now s)) = console s"
proof -
  obtain X where X: "state_of (stop_each (sourcesRef (addLog ''Interrupted'' s)) (addLog ''Interrupted'' s))
      = (addLog ''Interrupted'' s)\<lparr>stopped := X\<rparr>"
    using stop_each_state by blast
  have "isConnected (state_of (handle_interruption now s)) = isConnected s
    \<and> audioContextRef (state_of (handle_interruption now s)) = audioContextRef s
    \<and> mediaStreamRef (state_of (handle_interruption now s)) = mediaStreamRef s
    \<and> scriptProcessorRef (state_of (handle_interruption now s)) = scriptProcessorRef s
    \<and> sessionRef (state_of (handle_interruption now s)) = sessionRef s
    \<and> console (state_of (handle_interruption now s)) = console s"
  proof (cases "stop_each (sourcesRef (addLog ''Interrupted'' s)) (addLog ''Interrupted'' s)")
    case (Done s2)
    with X show ?thesis by (simp add: handle_interruption_def Let_def addLog_def)
  next
    case (Threw e s2)
    with X show ?thesis by (simp add: handle_interruption_def Let_def addLog_def)
  qed
  then show "isConnected (state_of (handle_interruption now s)) = isConnected s"
  "audioContextRef (state_of (handle_interruption now s)) = audioContextRef s"
  "mediaStreamRef (state_of (handle_interruption now s)) = mediaStreamRef s"
  "scriptProcessorRef (state_of (handle_interruption now s)) = scriptProcessorRef s"
  "sessionRef (state_of (handle_interruption now s)) = sessionRef s"
  "console (state_of (handle_interruption now s)) = console s"
    by simp_all
qed

lemma audio_branch_keeps:
  "isConnected (state_of (audio_branch dec m t1 s)) = isConnected s
   \<and> audioContextRef (state_of (audio_branch dec m t1 s)) = audioContextRef s
   \<and> mediaStreamRef (state_of (audio_branch dec m t1 s)) = mediaStreamRef s
   \<and> scriptProcessorRef (state_of (audio_branch dec m t1 s)) = scriptProcessorRef s
   \<and> sessionRef (state_of (audio_branch dec m t1 s)) = sessionRef s
   \<and> console (state_of (audio_branch dec m t1 s)) = console s
   \<and> logs (state_of (audio_branch dec m t1 s)) = logs s
   \<and> length (scheduled (state_of (audio_branch dec m t1 s))) =
       length (scheduled s)
         + (if carries_audio (Message m t1 t2) \<and> \<not> corrupt dec (Message m t1 t2) then 1 else 0)"
proof (cases "corrupt dec (Message m t1 t2)")
  case True
  from audio_branch_corrupt[OF True, of s] True show ?thesis by auto
next
  case False
  show ?thesis
  proof (cases "carries_audio (Message m t1 t2)")
    case True
    from audio_branch_plays[OF True False, of s] True False show ?thesis by auto
  next
    case c: False
    from audio_branch_silent[OF c, of dec s] c show ?thesis by simp
  qed
qed

lemma message_keeps:
  fixes dec m t1 t2 s
  defines "s' \<equiv> step dec (Message m t1 t2) s"
  shows "isConnected s' = isConnected s \<and> audioContextRef s' = audioContextRef s
   \<and> mediaStreamRef s' = mediaStreamRef s \<and> scriptProcessorRef s' = scriptProcessorRef s
   \<and> sessionRef s' = sessionRef s \<and> console s' = console s
   \<and> (\<not> interrupted m \<longrightarrow> logs s' = logs s)
   \<and> length (scheduled s') =
       length (scheduled s)
         + (if carries_audio (Message m t1 t2) \<and> \<not> corrupt dec (Message m t1 t2) then 1 else 0)"
proof (cases "audio_branch dec m t1 s")
  case (Threw e a)
  with audio_branch_keeps[of dec m t1 s t2] show ?thesis
    by (simp add: s'_def onmessage_alt)
next
  case (Done a)
  with audio_branch_keeps[of dec m t1 s t2] handle_interruption_keeps[of t2 a]
    handle_interruption_scheduled[of t2 a]
  show ?thesis
    by (simp add: s'_def onmessage_alt)
qed

lemma chunks_keep:
  assumes "\<forall>e \<in> set evs. carries_audio e"
  shows "isConnected (run dec evs s) = isConnected s
   \<and> audioContextRef (run dec evs s) = audioContextRef s
   \<and> mediaStreamRef (run dec evs s) = mediaStreamRef s
   \<and> scriptProcessorRef (run dec evs s) = scriptProcessorRef s
   \<and> sessionRef (run dec evs s) = sessionRef s
   \<and> console (run dec evs s) = console s
   \<and> ((\<forall>e \<in> set evs. \<not> interrupts e) \<longrightarrow> logs (run dec evs s) = logs s)
   \<and> length (scheduled (run dec evs s)) =
       length (scheduled s) + length (filter (\<lambda>e. \<not> corrupt dec e) evs)"
  using assms
proof (induction evs arbitrary: s)
  case Nil
  show ?case by simp
next
  case (Cons e evs)
  from Cons.prems obtain m t1 t2 where e: "e = Message m t1 t2"
    by (cases e) simp_all
  have ca: "carries_audio (Message m t1 t2)" using Cons.prems e by simp
  from Cons.prems have "\<forall>e \<in> set evs. carries_audio e" by simp
  from Cons.IH[OF this, of "step dec e s"] message_keeps[of dec m t1 t2 s] ca
  show ?case unfolding e by auto
qed

lemmas sample_defs =
  sample_session_def sample_decoder_def sample_devices_def chunk_def fresh_session_def
  startConversation_def start_resume_def start_begin_def onmessage_def
  handle_audio_output_def handle_interruption_def node_stop_def on_ended_def
  onopen_def addLog_def addLog_update_def slice_neg_def setError_def initial_state_def
  drawVisualizer_def draw_def set_add_def set_delete_def duration_def end_time_def Let_def

lemma sample_session_eq:
  "sample_session =
     initial_state\<lparr>isConnected := True,
       logs := [''Requesting microphone...'', ''Initializing AudioContext...'',
                ''Connecting to Gemini Live...'', ''Connected!''],
       audioContextRef := Some 1, mediaStreamRef := Some 7, scriptProcessorRef := Some 2,
       analyserRef := Some 3, animationFrameRef := 4, createdContexts := {1, 5},
       connectCalls := 1, channelOpen := True\<rparr>"
  by (simp add: sample_defs insert_commute)

lemma sample_after_one:
  "state_of (onmessage sample_decoder (chunk ''one'') (1/10) (1/10) sample_session) =
     sample_session\<lparr>isSpeaking := True,
       scheduled := [\<lparr>node_id = 0, start_at = 1/10, node_buffer = \<lparr>frames = 24000, sample_rate = 24000\<rparr>\<rparr>],
       sourcesRef := [\<lparr>node_id = 0, start_at = 1/10, node_buffer = \<lparr>frames = 24000, sample_rate = 24000\<rparr>\<rparr>],
       nextStartTimeRef := 11/10, nextNodeId := 1\<rparr>"
  by (simp add: sample_session_eq initial_state_def sample_decoder_def chunk_def onmessage_def
        handle_audio_output_def set_add_def duration_def Let_def)





lemma started_message:
  assumes "started_only s"
  shows "started_only (state_of (onmessage dec m t1 t2 s))"
proof (cases "corrupt dec (Message m t1 t2)")
  case True
  then obtain e where "audio_branch dec m t1 s =
         Threw e (s\<lparr>isSpeaking := True, nextStartTimeRef := max (nextStartTimeRef s) t1\<rparr>)"
    using audio_branch_corrupt by blast
  with assms show ?thesis by (simp add: onmessage_alt started_only_def)
next
  case False
  obtain a where a: "audio_branch dec m t1 s = Done a" "started_only a"
  proof (cases "carries_audio (Message m t1 t2)")
    case True
    from audio_branch_plays[OF True False, of s] obtain n where
      n: "audio_branch dec m t1 s =
           Done (s\<lparr>isSpeaking := True, scheduled := scheduled s @ [n],
                   nextNodeId := Suc (nextNodeId s),
                   nextStartTimeRef := end_time n,
                   sourcesRef := set_add n (sourcesRef s)\<rparr>)" by blast
    show ?thesis
      by (rule that[OF n]) (use assms in \<open>auto simp add: started_only_def set_set_add\<close>)
  next
    case c: False
    with audio_branch_silent[OF c] assms that show ?thesis by auto
  qed
  from a handle_interruption_started[OF a(2), of t2] show ?thesis
    by (simp add: onmessage_alt started_only_def)
qed

lemma step_started_only:
  assumes "started_only s"
  shows "started_only (step dec e s)"
proof (cases e)
  case (Message m t1 t2)
  with assms started_message show ?thesis by simp
next
  case (Ended n te)
  have "set (sourcesRef (on_ended n s)) \<subseteq> set (sourcesRef s)"
       "scheduled (on_ended n s) = scheduled s"
    by (auto simp add: on_ended_def set_delete_def Let_def)
  with assms Ended show ?thesis by (auto simp add: started_only_def)
qed (use assms in \<open>simp_all add: started_only_def onopen_def addLog_def onaudioprocess_def
       draw_def stop_begin_fields stop_resume_fields onclose_begin_def onerror_begin_def\<close>)

lemma run_started_only:
  assumes "started_only s"
  shows "started_only (run dec evs s)"
  using assms
proof (induction evs arbitrary: s)
  case Nil
  then show ?case by simp
next
  case (Cons e evs)
  from Cons.IH[OF step_started_only[OF Cons.prems]] show ?case by simp
qed

lemma interruption_resets:
  assumes "started_only s" and "interrupted m" and "\<not> corrupt dec (Message m t1 t2)"
  shows "\<not> threw (onmessage dec m t1 t2 s)"
    and "nextStartTimeRef (state_of (onmessage dec m t1 t2 s)) = t2"
proof -
  obtain a where a: "audio_branch dec m t1 s = Done a" "started_only a"
  proof (cases "carries_audio (Message m t1 t2)")
    case True
    from audio_branch_plays[OF True assms(3), of s] obtain n where
      n: "audio_branch dec m t1 s =
           Done (s\<lparr>isSpeaking := True, scheduled := scheduled s @ [n],
                   nextNodeId := Suc (nextNodeId s),
                   nextStartTimeRef := end_time n,
                   sourcesRef := set_add n (sourcesRef s)\<rparr>)" by blast
    show ?thesis
      by (rule that[OF n]) (use assms(1) in \<open>auto simp add: started_only_def set_set_add\<close>)
  next
    case c: False
    with audio_branch_silent[OF c] assms(1) that show ?thesis by auto
  qed
  from a assms(2) handle_interruption_started[OF a(2), of t2]
  show "\<not> threw (onmessage dec m t1 t2 s)"
    and "nextStartTimeRef (state_of (onmessage dec m t1 t2 s)) = t2"
    by (simp_all add: onmessage_alt)
qed


lemma str_includes_iff: "str_includes needle hay \<longleftrightarrow> (\<exists>ps ss. hay = ps @ needle @ ss)"
proof (induction hay)
  case Nil
  show ?case by auto
next
  case (Cons c cs)
  have "take (length needle) (c # cs) = needle \<longleftrightarrow> (\<exists>ss. c # cs = needle @ ss)"
    by (metis append_eq_conv_conj append_take_drop_id)
  moreover have "(\<exists>ps ss. c # cs = ps @ needle @ ss)
      \<longleftrightarrow> (\<exists>ss. c # cs = needle @ ss) \<or> (\<exists>ps ss. cs = ps @ needle @ ss)"
  proof
    assume "\<exists>ps ss. c # cs = ps @ needle @ ss"
    then obtain ps ss where e: "c # cs = ps @ needle @ ss" by blast
    show "(\<exists>ss. c # cs = needle @ ss) \<or> (\<exists>ps ss. cs = ps @ needle @ ss)"
    proof (cases ps)
      case Nil
      with e show ?thesis by auto
    next
      case (Cons a ps')
      with e have "cs = ps' @ needle @ ss" by simp
      then show ?thesis by blast
    qed
  next
    assume "(\<exists>ss. c # cs = needle @ ss) \<or> (\<exists>ps ss. cs = ps @ needle @ ss)"
    then show "\<exists>ps ss. c # cs = ps @ needle @ ss"
    proof
      assume "\<exists>ss. c # cs = needle @ ss"
      then obtain ss where "c # cs = [] @ needle @ ss" by auto
      then show ?thesis by blast
    next
      assume "\<exists>ps ss. cs = ps @ needle @ ss"
      then obtain ps ss where "c # cs = (c # ps) @ needle @ ss" by auto
      then show ?thesis by blast
    qed
  qed
  ultimately show ?case using Cons.IH by simp
qed

section \<open>Properties\<close>

text \<open>
  C1. An inbound audio chunk whose payload decodes is started at the maximum of the
  cursor before the chunk and the clock reading at arrival, and after scheduling the
  cursor is that start time plus the chunk's duration. In the scenario with chunks of
  1.0 s, 0.5 s and 2.0 s arriving at clock times 0.1, 0.2 and 5.0 in a session whose
  cursor starts at 0, the start times are 0.1, 1.1 and 5.0.
\<close>

theorem chunk_start_time:
  assumes "audio_data m = Some p" and "p \<noteq> []" and "dec p = Inr b"
  shows "(let n = \<lparr>node_id = nextNodeId s, start_at = max (nextStartTimeRef s) t1, node_buffer = b\<rparr>;
              s1 = state_of (handle_audio_output dec p t1 s)
          in scheduled s1 = scheduled s @ [n]
             \<and> nextStartTimeRef s1 = start_at n + duration b
             \<and> scheduled (state_of (onmessage dec m t1 t2 s)) = scheduled s @ [n]
             \<and> (\<not> interrupted m \<longrightarrow> onmessage dec m t1 t2 s = Done s1))
         \<and> map start_at (scheduled (run sample_decoder
               [Message (chunk ''one'') (1/10) (1/10), Message (chunk ''half'') (2/10) (2/10),
                Message (chunk ''two'') 5 5] sample_session)) = [1/10, 11/10, 5]"
proof -
  let ?n = "\<lparr>node_id = nextNodeId s, start_at = max (nextStartTimeRef s) t1, node_buffer = b\<rparr>"
  let ?s1 = "state_of (handle_audio_output dec p t1 s)"
  have ok: "handle_audio_output dec p t1 s = Done ?s1"
    using assms(3) by (simp add: handle_audio_output_ok)
  have a: "scheduled ?s1 = scheduled s @ [?n]"
    using assms(3) by (simp add: handle_audio_output_ok)
  have b: "nextStartTimeRef ?s1 = start_at ?n + duration b"
    using assms(3) by (simp add: handle_audio_output_ok)
  have om: "onmessage dec m t1 t2 s = (if interrupted m then handle_interruption t2 ?s1 else Done ?s1)"
    using assms by (simp add: onmessage_def handle_audio_output_ok)
  have c: "scheduled (state_of (onmessage dec m t1 t2 s)) = scheduled s @ [?n]"
    using om a handle_interruption_scheduled[of t2 ?s1] by (cases "interrupted m") simp_all
  have d: "\<not> interrupted m \<longrightarrow> onmessage dec m t1 t2 s = Done ?s1"
    using om by simp
  from a b c d sample_schedule show ?thesis by (simp add: Let_def)
qed

theorem chunk_start_time_witness:
  "(let s1 = state_of (handle_audio_output sample_decoder ''half'' (2/10) 
                 (state_of (onmessage sample_decoder (chunk ''one'') (1/10) (1/10) sample_session)))
    in map start_at (scheduled s1) = [1/10, 11/10] \<and> nextStartTimeRef s1 = 16/10)"
proof -
  let ?s = "state_of (onmessage sample_decoder (chunk ''one'') (1/10) (1/10) sample_session)"
  have s: "scheduled ?s = [\<lparr>node_id = 0, start_at = 1/10, node_buffer = \<lparr>frames = 24000, sample_rate = 24000\<rparr>\<rparr>]"
          "nextStartTimeRef ?s = 11/10" "nextNodeId ?s = 1"
    by (simp_all add: sample_session_def sample_decoder_def sample_devices_def chunk_def fresh_session_def
        startConversation_def start_resume_def start_begin_def onmessage_def
        handle_audio_output_def onopen_def addLog_def setError_def initial_state_def
        drawVisualizer_def draw_def set_add_def duration_def Let_def)
  have "audio_data (chunk ''half'') = Some ''half''" "''half'' \<noteq> []"
       "sample_decoder ''half'' = Inr \<lparr>frames = 12000, sample_rate = 24000\<rparr>"
    by (simp_all add: chunk_def sample_decoder_def)
  from chunk_start_time[where m = "chunk ''half''" and s = ?s and ?t1.0 = "2/10" and ?t2.0 = "2/10"
         and p = "''half''" and dec = sample_decoder
         and b = "\<lparr>frames = 12000, sample_rate = 24000\<rparr>", OF this] s
  show ?thesis by (simp add: Let_def duration_def)
qed

text \<open>
  C2 as stated covers every message with the interruption signal. A message that
  carries the signal together with an audio payload the decoder rejects raises in the
  audio branch, before the interruption branch: the outstanding chunk is not stopped
  and stays audible, the set is not cleared, the cursor is not reset, the flag stays on.
\<close>

theorem interruption_lost_with_corrupt_audio:
  "(let n = \<lparr>node_id = 0, start_at = 1/10, node_buffer = \<lparr>frames = 24000, sample_rate = 24000\<rparr>\<rparr>;
        s = run sample_decoder [Open, Message (chunk ''one'') (1/10) (1/10)] (fresh_session 7 sample_devices);
        r = onmessage sample_decoder \<lparr>audio_data = Some ''broken'', interrupted = True\<rparr> (1/2) (1/2) s
    in threw r \<and> sourcesRef (state_of r) = [n] \<and> stopped (state_of r) = {}
       \<and> nextStartTimeRef (state_of r) = 11/10 \<and> isSpeaking (state_of r)
       \<and> audible (state_of r) n (3/4))"
proof -
  let ?s = "run sample_decoder [Open, Message (chunk ''one'') (1/10) (1/10)] (fresh_session 7 sample_devices)"
  have s: "?s = state_of (onmessage sample_decoder (chunk ''one'') (1/10) (1/10) sample_session)"
    by (simp add: sample_session_def)
  show ?thesis
    unfolding s sample_after_one
    by (simp add: onmessage_def handle_audio_output_def sample_decoder_def audible_def
          end_time_def duration_def sample_session_eq initial_state_def Let_def)
qed

text \<open>
  C2 (amended). In a session started on a freshly mounted component, on a message with
  the interruption signal whose audio payload, if any, decodes: the handler does not
  raise, every chunk of the Outstanding Chunk Set is stopped, the set is empty, the
  cursor is the clock reading, the speaking flag is off, and no chunk started so far is
  audible at the clock reading or later, whatever events follow.
\<close>

theorem interruption_silences:
  assumes "admissible dec (dev_time dev) (fresh_session stream dev) (evs @ [Message m t1 t2])"
    and "interrupted m" and "\<not> corrupt dec (Message m t1 t2)"
  shows "(let s = run dec evs (fresh_session stream dev);
              r = onmessage dec m t1 t2 s;
              s' = state_of r
          in \<not> threw r \<and> set (sourcesRef s) \<subseteq> stopped s' \<and> sourcesRef s' = []
             \<and> nextStartTimeRef s' = t2 \<and> \<not> isSpeaking s'
             \<and> (\<forall>n \<in> set (scheduled s'). \<forall>t. t2 \<le> t \<longrightarrow> \<not> audible (run dec later s') n t))"
proof -
  let ?s = "run dec evs (fresh_session stream dev)"
  let ?r = "onmessage dec m t1 t2 ?s"
  note f = interruption_after_session[OF assms(1) conjunct1[OF fresh_session_inv]
             conjunct2[OF fresh_session_inv] assms(2,3)]
  have "\<not> audible (run dec later (state_of ?r)) n t"
    if n: "n \<in> set (scheduled (state_of ?r))" and t: "t2 \<le> t" for n t
  proof -
    from f(6) n have "n \<in> stopped (state_of ?r) \<or> end_time n \<le> t2" by blast
    then show ?thesis
    proof
      assume "n \<in> stopped (state_of ?r)"
      with run_stopped_mono[of "state_of ?r" dec later] show ?thesis
        by (auto simp add: audible_def)
    next
      assume "end_time n \<le> t2"
      with t show ?thesis by (simp add: audible_def)
    qed
  qed
  with f(1-5) show ?thesis by (simp add: Let_def)
qed

theorem interruption_silences_witness:
  "(let n = \<lparr>node_id = 0, start_at = 1/10, node_buffer = \<lparr>frames = 24000, sample_rate = 24000\<rparr>\<rparr>;
        s = run sample_decoder [Open, Message (chunk ''one'') (1/10) (1/10)] (fresh_session 7 sample_devices);
        s' = state_of (onmessage sample_decoder \<lparr>audio_data = None, interrupted = True\<rparr> (1/2) (1/2) s)
    in sourcesRef s = [n] \<and> audible s n (3/4) \<and> sourcesRef s' = [] \<and> n \<in> stopped s'
       \<and> nextStartTimeRef s' = 1/2 \<and> \<not> audible s' n (3/4))"
proof -
  let ?n = "\<lparr>node_id = 0, start_at = 1/10, node_buffer = \<lparr>frames = 24000, sample_rate = 24000\<rparr>\<rparr>"
  let ?s = "run sample_decoder [Open, Message (chunk ''one'') (1/10) (1/10)] (fresh_session 7 sample_devices)"
  let ?m = "\<lparr>audio_data = None, interrupted = True\<rparr>"
  let ?s' = "state_of (onmessage sample_decoder ?m (1/2) (1/2) ?s)"
  have s: "?s = state_of (onmessage sample_decoder (chunk ''one'') (1/10) (1/10) sample_session)"
    by (simp add: sample_session_def)
  have adm: "admissible sample_decoder (dev_time sample_devices) (fresh_session 7 sample_devices)
               ([Open, Message (chunk ''one'') (1/10) (1/10)] @ [Message ?m (1/2) (1/2)])"
    by (simp add: sample_devices_def)
  have "interrupted ?m" and "\<not> corrupt sample_decoder (Message ?m (1/2) (1/2))"
    by simp_all
  note th = interruption_silences[OF adm this, of "[]"]
  have src: "sourcesRef ?s = [?n]" and aud: "audible ?s ?n (3/4)"
    unfolding s sample_after_one
    by (simp_all add: audible_def end_time_def duration_def sample_session_eq initial_state_def)
  have mem: "?n \<in> set (scheduled ?s')"
    using handle_interruption_scheduled[of "1/2" ?s]
    unfolding s sample_after_one by (simp add: onmessage_def)
  from th src mem have "sourcesRef ?s' = [] \<and> ?n \<in> stopped ?s' \<and> nextStartTimeRef ?s' = 1/2
      \<and> \<not> audible ?s' ?n (3/4)"
    by (simp add: Let_def)
  with src aud show ?thesis by (simp add: Let_def)
qed




text \<open>
  C4 as stated has the cursor reset to the clock on every interruption signal. With two
  seconds of audio queued (cursor 2.1) a message at clock time 1 that carries the signal
  together with a payload the decoder rejects leaves the cursor at 2.1.
\<close>

theorem cursor_not_reset_with_corrupt_audio:
  "(let s = run sample_decoder [Open, Message (chunk ''two'') (1/10) (1/10)]
              (fresh_session 7 sample_devices);
        m = \<lparr>audio_data = Some ''broken'', interrupted = True\<rparr>;
        s' = state_of (onmessage sample_decoder m 1 1 s)
    in interrupted m \<and> nextStartTimeRef s = 21/10 \<and> nextStartTimeRef s' = 21/10
       \<and> nextStartTimeRef s' \<noteq> 1)"
  by (simp add: sample_defs)

text \<open>
  C4 (amended). A message leaves the cursor at or above its old value, unless it carries
  the interruption signal and the cursor is reset to the clock reading. In a session
  started on a freshly mounted component, an interruption signal in a message whose
  audio payload, if any, decodes resets the cursor to the clock reading. Along every
  sequence of events without an interruption signal, whatever the arrival times, the
  cursor never decreases.
\<close>

theorem cursor_monotone:
  "(nextStartTimeRef s \<le> nextStartTimeRef (state_of (onmessage dec m t1 t2 s))
      \<or> (interrupted m \<and> nextStartTimeRef (state_of (onmessage dec m t1 t2 s)) = t2))
   \<and> (interrupted m \<and> \<not> corrupt dec (Message m t1 t2) \<longrightarrow>
         nextStartTimeRef
           (state_of (onmessage dec m t1 t2 (run dec evs (fresh_session stream dev)))) = t2)
   \<and> (interrupted m \<and> \<not> threw (onmessage dec m t1 t2 s) \<longrightarrow>
         nextStartTimeRef (state_of (onmessage dec m t1 t2 s)) = t2)
   \<and> ((\<forall>e \<in> set (xs @ ys). \<not> interrupts e) \<longrightarrow>
         nextStartTimeRef (run dec xs s) \<le> nextStartTimeRef (run dec (xs @ ys) s))"
proof -
  have "started_only (run dec evs (fresh_session stream dev))"
    using run_started_only fresh_session_inv by blast
  then have reset: "interrupted m \<and> \<not> corrupt dec (Message m t1 t2) \<longrightarrow>
         nextStartTimeRef
           (state_of (onmessage dec m t1 t2 (run dec evs (fresh_session stream dev)))) = t2"
    using interruption_resets(2) by blast
  show ?thesis
    using reset onmessage_cursor[of s dec m t1 t2] run_cursor[of ys "run dec xs s" dec]
      onmessage_reset[of m dec t1 t2 s]
    by (simp add: run_append)
qed

theorem cursor_monotone_witness:
  "nextStartTimeRef (run sample_decoder [Message (chunk ''one'') 3 3] sample_session)
     \<le> nextStartTimeRef (run sample_decoder
          ([Message (chunk ''one'') 3 3] @ [Message (chunk ''broken'') 1 1, Message (chunk ''half'') 2 2])
          sample_session)
   \<and> nextStartTimeRef (state_of (onmessage sample_decoder
          \<lparr>audio_data = Some ''two'', interrupted = True\<rparr> 1 2
          (run sample_decoder [Open, Message (chunk ''one'') (1/10) (1/10)]
             (fresh_session 7 sample_devices)))) = 2"
proof -
  have "\<forall>e \<in> set ([Message (chunk ''one'') 3 3]
          @ [Message (chunk ''broken'') 1 1, Message (chunk ''half'') 2 2]). \<not> interrupts e"
    by (simp add: chunk_def)
  moreover have "interrupted \<lparr>audio_data = Some ''two'', interrupted = True\<rparr>
     \<and> \<not> corrupt sample_decoder (Message \<lparr>audio_data = Some ''two'', interrupted = True\<rparr> 1 2)"
    by (simp add: sample_decoder_def)
  ultimately show ?thesis
    using cursor_monotone[of sample_session sample_decoder
        "\<lparr>audio_data = Some ''two'', interrupted = True\<rparr>" 1 2
        "[Open, Message (chunk ''one'') (1/10) (1/10)]" 7 sample_devices
        "[Message (chunk ''one'') 3 3]"
        "[Message (chunk ''broken'') 1 1, Message (chunk ''half'') 2 2]"]
    by blast
qed

text \<open>
  C5 as stated has the failed chunk logged. The handler raises out of \<^verbatim>\<open>onmessage\<close> with
  no \<^verbatim>\<open>catch\<close>: nothing is added to the log list, to the console or to the error.
\<close>

theorem corrupt_chunk_not_logged:
  "(let e = Message (chunk ''broken'') 1 1; s' = step sample_decoder e sample_session
    in corrupt sample_decoder e \<and> threw (onmessage sample_decoder (chunk ''broken'') 1 1 sample_session)
       \<and> logs s' = logs sample_session \<and> console s' = [] \<and> console sample_session = []
       \<and> error s' = None)"
  by (simp add: sample_defs)

text \<open>
  C5 (amended). A payload the decoder rejects makes \<^verbatim>\<open>onmessage\<close> raise after it set the
  speaking flag and synchronised the cursor: no chunk is scheduled for it and nothing is
  logged. Later messages are handled as usual: of \<open>N\<close> audio messages with exactly one
  rejected payload, \<open>N - 1\<close> chunks are scheduled, and the connection flag, the refs of
  the session and the console are as before.
\<close>

theorem corrupt_chunk_dropped:
  assumes "\<forall>e \<in> set evs. carries_audio e" and "length (filter (corrupt dec) evs) = 1"
  shows "length (scheduled (run dec evs s)) = length (scheduled s) + (length evs - 1)
     \<and> isConnected (run dec evs s) = isConnected s
     \<and> audioContextRef (run dec evs s) = audioContextRef s
     \<and> mediaStreamRef (run dec evs s) = mediaStreamRef s
     \<and> scriptProcessorRef (run dec evs s) = scriptProcessorRef s
     \<and> sessionRef (run dec evs s) = sessionRef s
     \<and> console (run dec evs s) = console s
     \<and> ((\<forall>e \<in> set evs. \<not> interrupts e) \<longrightarrow> logs (run dec evs s) = logs s)
     \<and> (corrupt dec (Message m t1 t2) \<longrightarrow>
          (\<exists>e. onmessage dec m t1 t2 s =
                 Threw e (s\<lparr>isSpeaking := True,
                            nextStartTimeRef := max (nextStartTimeRef s) t1\<rparr>)))"
proof -
  have "length (filter (corrupt dec) evs) + length (filter (\<lambda>e. \<not> corrupt dec e) evs) = length evs"
    by (rule sum_length_filter_compl)
  with assms(2) have n: "length (filter (\<lambda>e. \<not> corrupt dec e) evs) = length evs - 1"
    by simp
  have thr: "corrupt dec (Message m t1 t2) \<longrightarrow>
          (\<exists>e. onmessage dec m t1 t2 s =
                 Threw e (s\<lparr>isSpeaking := True,
                            nextStartTimeRef := max (nextStartTimeRef s) t1\<rparr>))"
  proof
    assume "corrupt dec (Message m t1 t2)"
    from audio_branch_corrupt[OF this, of s] show
      "\<exists>e. onmessage dec m t1 t2 s =
                 Threw e (s\<lparr>isSpeaking := True,
                            nextStartTimeRef := max (nextStartTimeRef s) t1\<rparr>)"
      by (auto simp add: onmessage_alt)
  qed
  from chunks_keep[OF assms(1), of dec s] n thr show ?thesis by simp
qed

theorem corrupt_chunk_dropped_witness:
  "length (scheduled (run sample_decoder
      [Message (chunk ''one'') (1/10) (1/10), Message (chunk ''broken'') (2/10) (2/10),
       Message (chunk ''half'') (3/10) (3/10)] sample_session)) = 2
   \<and> isConnected (run sample_decoder
      [Message (chunk ''one'') (1/10) (1/10), Message (chunk ''broken'') (2/10) (2/10),
       Message (chunk ''half'') (3/10) (3/10)] sample_session)"
proof -
  let ?evs = "[Message (chunk ''one'') (1/10) (1/10), Message (chunk ''broken'') (2/10) (2/10),
       Message (chunk ''half'') (3/10) (3/10)]"
  have a: "\<forall>e \<in> set ?evs. carries_audio e" by (simp add: chunk_def)
  have b: "length (filter (corrupt sample_decoder) ?evs) = 1"
    by (simp add: chunk_def sample_decoder_def)
  from corrupt_chunk_dropped[OF a b, of sample_session] show ?thesis
    by (simp add: sample_session_eq initial_state_def)
qed

text \<open>
  C6. When \<^verbatim>\<open>getUserMedia\<close> rejects, \<^verbatim>\<open>startConversation\<close> shows the rejection's message
  (or the fallback text) as the one error it surfaces, the component is not connected
  before or after, \<^verbatim>\<open>ai.live.connect\<close> is not called, and every ref is cleared.
\<close>

theorem mic_denied:
  "(let msg = (if e = [] then ''Failed to start conversation'' else e);
        s' = startConversation (Inl e) dev s
    in error s' = Some msg \<and> surfaced s' = surfaced s @ [msg]
       \<and> isConnected (start_begin s) = isConnected s \<and> \<not> isConnected s'
       \<and> connectCalls s' = connectCalls s
       \<and> released s' \<and> given_back s s')"
proof -
  let ?s1 = "setError (Some (if e = [] then ''Failed to start conversation'' else e))
               (console_error e (start_begin s))"
  have eq: "startConversation (Inl e) dev s = stopConversation ?s1"
    by (simp add: startConversation_def start_resume_def)
  have refs: "animationFrameRef ?s1 = animationFrameRef s" "mediaStreamRef ?s1 = mediaStreamRef s"
    "scriptProcessorRef ?s1 = scriptProcessorRef s" "sourcesRef ?s1 = sourcesRef s"
    "scheduled ?s1 = scheduled s" "audioContextRef ?s1 = audioContextRef s"
    "connectCalls ?s1 = connectCalls s"
    "surfaced ?s1 = surfaced s @ [if e = [] then ''Failed to start conversation'' else e]"
    "error ?s1 = Some (if e = [] then ''Failed to start conversation'' else e)"
    by (simp_all add: setError_def console_error_def start_begin_def addLog_def)
  have gb: "given_back s (stopConversation ?s1)"
    using given_back_stopConversation[of ?s1] unfolding given_back_def refs .
  show ?thesis
    unfolding Let_def eq
    using gb released_stopConversation[of ?s1] refs
    by (simp add: stopConversation_fields start_begin_refs)
qed

theorem mic_denied_witness:
  "startConversation (Inl ''Permission denied'') sample_devices initial_state =
     initial_state\<lparr>error := Some ''Permission denied'', surfaced := [''Permission denied''],
        console := [''Permission denied''],
        logs := [''Requesting microphone...'', ''Conversation ended'']\<rparr>
   \<and> released (startConversation (Inl ''Permission denied'') sample_devices initial_state)"
proof -
  have "released (startConversation (Inl ''Permission denied'') sample_devices initial_state)"
    using mic_denied[of "''Permission denied''" sample_devices initial_state]
    by (simp add: Let_def)
  moreover have "startConversation (Inl ''Permission denied'') sample_devices initial_state =
     initial_state\<lparr>error := Some ''Permission denied'', surfaced := [''Permission denied''],
        console := [''Permission denied''],
        logs := [''Requesting microphone...'', ''Conversation ended'']\<rparr>"
    by (simp add: startConversation_def start_resume_def start_begin_def stopConversation_eq
        stop_release_eq setError_def console_error_def addLog_def addLog_update_def slice_neg_def
        initial_state_def)
  ultimately show ?thesis by simp
qed




text \<open>
  C8 as stated asks for equal resulting states; on a freshly mounted component the close
  callback leaves two log lines where \<^verbatim>\<open>stopConversation\<close> leaves one, and in a connected
  session the two log lists differ in the same line.
\<close>

theorem close_is_not_stop:
  "onclose initial_state \<noteq> stopConversation initial_state
   \<and> logs (onclose initial_state) = [''Disconnected by server'', ''Conversation ended'']
   \<and> logs (stopConversation initial_state) = [''Conversation ended'']
   \<and> onclose sample_session \<noteq> stopConversation sample_session
   \<and> logs (onclose sample_session) =
        [''Initializing AudioContext...'', ''Connecting to Gemini Live...'', ''Connected!'',
         ''Disconnected by server'', ''Conversation ended'']
   \<and> logs (stopConversation sample_session) =
        [''Requesting microphone...'', ''Initializing AudioContext...'',
         ''Connecting to Gemini Live...'', ''Connected!'', ''Conversation ended'']"
proof -
  have c: "logs (onclose sample_session) =
        [''Initializing AudioContext...'', ''Connecting to Gemini Live...'', ''Connected!'',
         ''Disconnected by server'', ''Conversation ended'']"
    by (simp add: onclose_def stopConversation_eq stop_release_eq addLog_def addLog_update_def
          slice_neg_def sample_session_eq initial_state_def)
  have d: "logs (stopConversation sample_session) =
        [''Requesting microphone...'', ''Initializing AudioContext...'',
         ''Connecting to Gemini Live...'', ''Connected!'', ''Conversation ended'']"
    by (simp add: stopConversation_eq stop_release_eq addLog_update_def
          slice_neg_def sample_session_eq initial_state_def)
  from c d have e: "onclose sample_session \<noteq> stopConversation sample_session" by auto
  have a: "logs (onclose initial_state) = [''Disconnected by server'', ''Conversation ended'']"
    by (simp add: onclose_def stopConversation_eq stop_release_eq addLog_def addLog_update_def
          slice_neg_def initial_state_def)
  have b: "logs (stopConversation initial_state) = [''Conversation ended'']"
    by (simp add: stopConversation_eq stop_release_eq addLog_update_def
          slice_neg_def initial_state_def)
  from a b have "onclose initial_state \<noteq> stopConversation initial_state" by auto
  with a b c d e show ?thesis by simp
qed

text \<open>
  C8 (amended). The close callback logs \<^verbatim>\<open>Disconnected by server\<close>, the error callback
  writes to the console and surfaces \<^verbatim>\<open>Connection error\<close>; each then runs
  \<^verbatim>\<open>stopConversation\<close>. The resulting state agrees with that of \<^verbatim>\<open>stopConversation\<close> in
  the connection flags, the refs and the released devices; it differs in the log list
  for the close callback, and in the error text and the console for the error callback.
\<close>

theorem close_and_error_teardown:
  "without_messages (onclose s) = without_messages (stopConversation s)
   \<and> logs (onclose s) =
       addLog_update ''Conversation ended'' (addLog_update ''Disconnected by server'' (logs s))
   \<and> error (onclose s) = error s \<and> surfaced (onclose s) = surfaced s
   \<and> console (onclose s) = console (stopConversation s)
   \<and> without_messages (onerror e s) = without_messages (stopConversation s)
   \<and> logs (onerror e s) = logs (stopConversation s)
   \<and> error (onerror e s) = Some ''Connection error''
   \<and> surfaced (onerror e s) = surfaced s @ [''Connection error'']
   \<and> console (onerror e s) = console (stopConversation (console_error e s))
   \<and> released (onclose s) \<and> released (onerror e s)
   \<and> given_back s (onclose s) \<and> given_back s (onerror e s)"
  by (simp add: onclose_def onerror_def without_messages_def stopConversation_eq stop_release_eq
        addLog_def setError_def console_error_def released_def given_back_def
        split: option.splits)

text \<open>
  C9 as stated retries whenever the first failure matches and key selection is
  available. When \<^verbatim>\<open>openSelectKey\<close> itself rejects, the request is not retried.
\<close>

theorem no_retry_when_selection_fails:
  "(let env = \<lparr>has_selector = True, first_request = Inl ''403 Forbidden'',
               select_key = Some ''selection cancelled'', second_request = Inr 1\<rparr>
    in retryable ''403 Forbidden''
       \<and> request_video env = (Inl ''selection cancelled'', [GenerateVideos, OpenSelectKey])
       \<and> length (filter (\<lambda>c. c = GenerateVideos) (snd (request_video env))) = 1)"
  by (simp add: request_video_def retryable_def)

text \<open>
  C9 (amended). When the first request fails with a message containing
  \<^verbatim>\<open>Requested entity was not found\<close> or \<^verbatim>\<open>403\<close> and key selection is available, the flow
  calls \<^verbatim>\<open>openSelectKey\<close>; when that resolves the request is sent exactly once more and
  its outcome is final, when it rejects its error is surfaced with no retry. Any other
  first failure is surfaced with no retry. No path sends more than two requests, and
  a failure reaches the user through the outer \<^verbatim>\<open>catch\<close>.
\<close>

theorem retry_once:
  "(first_request env = Inl e \<and> retryable e \<and> has_selector env \<and> select_key env = None \<longrightarrow>
      request_video env = (second_request env, [GenerateVideos, OpenSelectKey, GenerateVideos]))
   \<and> (first_request env = Inl e \<and> retryable e \<and> has_selector env \<and> select_key env = Some e' \<longrightarrow>
      request_video env = (Inl e', [GenerateVideos, OpenSelectKey]))
   \<and> (first_request env = Inl e \<and> (\<not> retryable e \<or> \<not> has_selector env) \<longrightarrow>
      request_video env = (Inl e, [GenerateVideos]))
   \<and> (first_request env = Inr operation \<longrightarrow>
      request_video env = (Inr operation, [GenerateVideos]))
   \<and> length (filter (\<lambda>c. c = GenerateVideos) (snd (request_video env))) \<le> 2
   \<and> (fst (request_video env) = Inl x \<longrightarrow>
        request_phase env v =
          (None, snd (request_video env),
           v\<lparr>veo_console := veo_console v @ [x],
             veo_error := Some (if x = [] then ''An unexpected error occurred.'' else x),
             isGenerating := False\<rparr>))
   \<and> (retryable e \<longleftrightarrow>
        e \<noteq> [] \<and> ((\<exists>ps ss. e = ps @ ''Requested entity was not found'' @ ss)
                  \<or> (\<exists>ps ss. e = ps @ ''403'' @ ss)))"
proof -
  have cnt: "length (filter (\<lambda>c. c = GenerateVideos) (snd (request_video env))) \<le> 2"
    by (simp add: request_video_def split: sum.splits option.splits)
  have ph: "fst (request_video env) = Inl x \<longrightarrow>
        request_phase env v =
          (None, snd (request_video env),
           v\<lparr>veo_console := veo_console v @ [x],
             veo_error := Some (if x = [] then ''An unexpected error occurred.'' else x),
             isGenerating := False\<rparr>)"
    by (cases "request_video env") (auto simp add: request_phase_def)
  have rt: "retryable e \<longleftrightarrow>
        e \<noteq> [] \<and> ((\<exists>ps ss. e = ps @ ''Requested entity was not found'' @ ss)
                  \<or> (\<exists>ps ss. e = ps @ ''403'' @ ss))"
    unfolding retryable_def str_includes_iff ..
  have br: "(first_request env = Inl e \<and> retryable e \<and> has_selector env \<and> select_key env = None \<longrightarrow>
      request_video env = (second_request env, [GenerateVideos, OpenSelectKey, GenerateVideos]))
   \<and> (first_request env = Inl e \<and> retryable e \<and> has_selector env \<and> select_key env = Some e' \<longrightarrow>
      request_video env = (Inl e', [GenerateVideos, OpenSelectKey]))
   \<and> (first_request env = Inl e \<and> (\<not> retryable e \<or> \<not> has_selector env) \<longrightarrow>
      request_video env = (Inl e, [GenerateVideos]))
   \<and> (first_request env = Inr operation \<longrightarrow>
      request_video env = (Inr operation, [GenerateVideos]))"
    by (auto simp add: request_video_def)
  from br cnt ph rt show ?thesis by blast
qed

theorem retry_once_witness:
  "(let env = \<lparr>has_selector = True, first_request = Inl ''Requested entity was not found.'',
               select_key = None, second_request = Inl ''quota exceeded''\<rparr>;
        v = \<lparr>veo_error = None, isGenerating = True,
             statusMessage = ''Sending request to Gemini...'', veo_console = []\<rparr>
    in request_phase env v =
         (None, [GenerateVideos, OpenSelectKey, GenerateVideos],
          v\<lparr>veo_console := [''quota exceeded''], veo_error := Some ''quota exceeded'',
            isGenerating := False\<rparr>))"
proof -
  let ?env = "\<lparr>has_selector = True, first_request = Inl ''Requested entity was not found.'',
               select_key = None, second_request = Inl ''quota exceeded''\<rparr>"
  let ?v = "\<lparr>veo_error = None, isGenerating = True,
             statusMessage = ''Sending request to Gemini...'', veo_console = []\<rparr>"
  have r: "retryable ''Requested entity was not found.''"
    by (simp add: retryable_def)
  have h: "first_request ?env = Inl ''Requested entity was not found.''
      \<and> retryable ''Requested entity was not found.'' \<and> has_selector ?env \<and> select_key ?env = None"
    using r by simp
  from retry_once[of ?env "''Requested entity was not found.''" _ _ "''quota exceeded''" ?v] h
  have rv: "request_video ?env = (second_request ?env, [GenerateVideos, OpenSelectKey, GenerateVideos])"
    by blast
  then have "fst (request_video ?env) = Inl ''quota exceeded''" by simp
  with retry_once[of ?env "''Requested entity was not found.''" _ _ "''quota exceeded''" ?v] rv
  show ?thesis by (simp add: Let_def)
qed

text \<open>
  C10. For every prior log list, the list after \<^verbatim>\<open>addLog\<close> has at most five entries:
  the last four prior entries (all of them when there are fewer), in their order,
  followed by the new message as the last entry.
\<close>

theorem addLog_bounded:
  "length (logs (addLog msg s)) \<le> 5
   \<and> logs (addLog msg s) = drop (length (logs s) - 4) (logs s) @ [msg]
   \<and> length (drop (length (logs s) - 4) (logs s)) = min 4 (length (logs s))
   \<and> last (logs (addLog msg s)) = msg
   \<and> butlast (logs (addLog msg s)) = drop (length (logs s) - 4) (logs s)"
  by (auto simp add: addLog_def addLog_update_def slice_neg_def)

end
